theory Spec2Isabelle
  imports Main "HOL-Library.Word"
begin

unbundle bit_operations_syntax

section \<open>Bytes, big-endian fields and CRC-32\<close>

type_synonym byte = "8 word"
type_synonym u16 = "16 word"
type_synonym u32 = "32 word"

text \<open>
  \<^verbatim>\<open>writeUint16\<close> and \<open>writeUint32\<close> of \<^verbatim>\<open>writer.go\<close> store a value big-endian into
  the first bytes of a slice. The model returns the bytes stored; the slice they land in
  (a window of one of the encoder's scratch arrays) is the caller's business.
\<close>

definition writeUint16 :: "u16 \<Rightarrow> byte list" where
  "writeUint16 u = [ucast (drop_bit 8 u), ucast u]"

definition writeUint32 :: "u32 \<Rightarrow> byte list" where
  "writeUint32 u = [ucast (drop_bit 24 u), ucast (drop_bit 16 u), ucast (drop_bit 8 u), ucast u]"

text \<open>\<^verbatim>\<open>binary.BigEndian.Uint32\<close> of the standard library, on the first four bytes.\<close>

definition BigEndian_Uint32 :: "byte list \<Rightarrow> u32" where
  "BigEndian_Uint32 b =
     push_bit 24 (ucast (b ! 0)) OR push_bit 16 (ucast (b ! 1)) OR
     push_bit 8 (ucast (b ! 2)) OR ucast (b ! 3)"

text \<open>\<^verbatim>\<open>binary.BigEndian.Uint16\<close>, the reader's side of a 16-bit field, on the first two bytes.\<close>

definition BigEndian_Uint16 :: "byte list \<Rightarrow> u16" where
  "BigEndian_Uint16 b = push_bit 8 (ucast (b ! 0)) OR ucast (b ! 1)"

text \<open>
  \<^verbatim>\<open>hash/crc32\<close> with the IEEE polynomial, in the form of the standard library's
  \<^verbatim>\<open>simpleMakeTable\<close> and \<^verbatim>\<open>simpleUpdate\<close>: a table entry is eight shift-and-xor
  steps on the index, and an update complements the running value, folds the bytes in
  through the table, and complements again. A digest is its running value: \<^verbatim>\<open>NewIEEE\<close>
  starts at 0, \<^verbatim>\<open>Write\<close> updates, \<^verbatim>\<open>Sum32\<close> reads.
\<close>

definition IEEE :: u32 where
  "IEEE = 0xedb88320"

definition crc_bit :: "u32 \<Rightarrow> u32" where
  "crc_bit crc = (if crc AND 1 = 1 then drop_bit 1 crc XOR IEEE else drop_bit 1 crc)"

definition IEEETable :: "byte \<Rightarrow> u32" where
  "IEEETable i = (crc_bit ^^ 8) (ucast i)"

definition crc_byte :: "u32 \<Rightarrow> byte \<Rightarrow> u32" where
  "crc_byte crc v = IEEETable (ucast crc XOR v) XOR drop_bit 8 crc"

definition simpleUpdate :: "u32 \<Rightarrow> byte list \<Rightarrow> u32" where
  "simpleUpdate crc p = NOT (foldl crc_byte (NOT crc) p)"

definition crc32_NewIEEE :: u32 where
  "crc32_NewIEEE = 0"

definition crc32_Write :: "u32 \<Rightarrow> byte list \<Rightarrow> u32" where
  "crc32_Write d p = simpleUpdate d p"

definition crc32_Sum32 :: "u32 \<Rightarrow> u32" where
  "crc32_Sum32 d = d"

text \<open>\<^verbatim>\<open>crc32.ChecksumIEEE\<close>: the CRC-32 of one byte string.\<close>

definition ChecksumIEEE :: "byte list \<Rightarrow> u32" where
  "ChecksumIEEE p = simpleUpdate 0 p"

section \<open>Errors\<close>

text \<open>
  Every error the package returns, one constructor per \<^verbatim>\<open>errors.New\<close> site, the two
  sentinels of \<^verbatim>\<open>io\<close>, the error of a failed \<^verbatim>\<open>Write\<close> (the writer's own, opaque here),
  and a run-time panic.
\<close>

datatype error =
    ErrNeedImage
  | ErrDelayMismatch
  | ErrDisposalMismatch
  | ErrColorModel
  | ErrRegion
  | ErrPngEncoding string
  | ErrPaletteEncoding string
  | ErrChunkTooLarge
  | ErrMissingFrame nat
  | EOF
  | ErrUnexpectedEOF
  | IOError nat
  | Panic

section \<open>The output writer\<close>

text \<open>
  An \<^verbatim>\<open>io.Writer\<close> is seen by the encoder through the error each \<^verbatim>\<open>Write\<close> returns (the
  byte count is discarded by every caller). The model keeps the bytes the writer has
  accepted and a script of what the coming calls will answer: \<open>None\<close> accepts the whole
  slice, \<open>Some (n, k)\<close> accepts \<open>n\<close> bytes at most and fails with \<open>IOError k\<close>. A
  writer whose script is used up never fails (a \<^verbatim>\<open>bytes.Buffer\<close>, as \<^verbatim>\<open>APNGBytes\<close> passes).
\<close>

record writer =
  wdata :: "byte list"
  wscript :: "(nat \<times> nat) option list"

definition Write :: "writer \<Rightarrow> byte list \<Rightarrow> writer \<times> error option" where
  "Write w p =
     (case wscript w of
        [] \<Rightarrow> (w\<lparr>wdata := wdata w @ p\<rparr>, None)
      | None # rs \<Rightarrow> (w\<lparr>wdata := wdata w @ p, wscript := rs\<rparr>, None)
      | Some (n, k) # rs \<Rightarrow> (w\<lparr>wdata := wdata w @ take n p, wscript := rs\<rparr>, Some (IOError k)))"

section \<open>Images and the animation\<close>

record point =
  X :: int
  Y :: int

record rectangle =
  Min_r :: point
  Max_r :: point

text \<open>
  A \<^verbatim>\<open>color.Model\<close> is an interface value: the models of the standard library are pointers
  (compared by identity), the model of a paletted image is its palette, a slice.
\<close>

datatype color_model = ModelFunc nat | Palette "nat list"

text \<open>
  An \<^verbatim>\<open>image.Image\<close>, as far as the encoder looks at it: its bounds, its colour model,
  whether its dynamic type is \<^verbatim>\<open>*image.Paletted\<close>, and its pixels, which only the PNG
  encoder reads. A nil interface value is \<open>None\<close> in the list of frames.
\<close>

record image =
  Bounds :: rectangle
  ColorModel :: color_model
  isPaletted :: bool
  Pix :: "byte list"

text \<open>
  \<^verbatim>\<open>APNG\<close>. \<open>Disposals\<close> is \<open>None\<close> for a nil slice. The field \<^verbatim>\<open>Config\<close> is read by no
  function of the package and is left out.
\<close>

record APNG =
  Images :: "image option list"
  Delays :: "u16 list"
  Disposals :: "byte list option"
  LoopCount :: u32

section \<open>The encoder\<close>

text \<open>
  \<^verbatim>\<open>encoder\<close>. The scratch arrays \<^verbatim>\<open>tmpHeader\<close>, \<^verbatim>\<open>tmp\<close> and \<^verbatim>\<open>tmpFooter\<close> are filled and
  read within one method call and carry nothing between calls, so they are local values
  in the model.
\<close>

record encoder =
  aPNG :: APNG
  writer :: writer
  seqNum :: u32
  ihdr :: "byte list"
  idats :: "byte list list"
  err :: "error option"

text \<open>
  \<^verbatim>\<open>writeChunk\<close>. \<open>uint32(len(b))\<close> differs from \<open>len(b)\<close> exactly when the length does
  not fit 32 bits. Indexing \<open>name[0..3]\<close> panics on a shorter name; a panic is recorded in
  \<open>err\<close>, after which nothing more is written.
\<close>

definition writeChunk :: "encoder \<Rightarrow> byte list \<Rightarrow> string \<Rightarrow> encoder" where
  "writeChunk e b name =
     (if err e \<noteq> None then e
      else if \<not> length b < 2 ^ 32 then e\<lparr>err := Some ErrChunkTooLarge\<rparr>
      else if length name < 4 then e\<lparr>err := Some Panic\<rparr>
      else
        let tmpHeader = writeUint32 (of_nat (length b)) @ map of_char (take 4 name);
            (w1, r1) = Write (writer e) tmpHeader;
            e = e\<lparr>writer := w1, err := r1\<rparr>
        in if err e \<noteq> None then e
           else
             let (w2, r2) = Write (writer e) b;
                 e = e\<lparr>writer := w2, err := r2\<rparr>
             in if err e \<noteq> None then e
                else
                  let crc = crc32_NewIEEE;
                      crc = crc32_Write crc (drop 4 tmpHeader);
                      crc = crc32_Write crc b;
                      tmpFooter = writeUint32 (crc32_Sum32 crc);
                      (w3, r3) = Write (writer e) tmpFooter
                  in e\<lparr>writer := w3, err := r3\<rparr>)"


text \<open>\<^verbatim>\<open>writeIHDR\<close>, \<^verbatim>\<open>writeacTL\<close>, \<^verbatim>\<open>writeIEND\<close>.\<close>

definition writeIHDR :: "encoder \<Rightarrow> encoder" where
  "writeIHDR e = writeChunk e (ihdr e) ''IHDR''"

definition writeacTL :: "encoder \<Rightarrow> encoder" where
  "writeacTL e =
     writeChunk e
       (writeUint32 (of_nat (length (Images (aPNG e)))) @ writeUint32 (LoopCount (aPNG e)))
       ''acTL''"

definition writeIEND :: "encoder \<Rightarrow> encoder" where
  "writeIEND e = writeChunk e [] ''IEND''"

text \<open>
  \<^verbatim>\<open>writefcTL\<close> (the revision that writes \<^verbatim>\<open>dispose_op\<close>). Go's \<open>int\<close> is modelled by
  \<open>int\<close>: \<open>uint32(x)\<close> keeps the low 32 bits of \<open>x\<close>, which \<open>word_of_int\<close> does, and the
  low 32 bits of a difference do not depend on the wrap-around of the 64-bit subtraction.
  An index out of range and a method call on a nil image panic, before anything is
  written.
\<close>

definition writefcTL :: "encoder \<Rightarrow> nat \<Rightarrow> encoder" where
  "writefcTL e frameIndex =
     (let a = aPNG e in
      if \<not> frameIndex < length (Images a) then e\<lparr>err := Some Panic\<rparr>
      else case Images a ! frameIndex of
        None \<Rightarrow> e\<lparr>err := Some Panic\<rparr>
      | Some img \<Rightarrow>
          if \<not> frameIndex < length (Delays a) then e\<lparr>err := Some Panic\<rparr>
          else if (case Disposals a of None \<Rightarrow> False | Some ds \<Rightarrow> \<not> frameIndex < length ds)
          then e\<lparr>err := Some Panic\<rparr>
          else
            let bounds = Bounds img;
                tmp =
                  writeUint32 (seqNum e) @
                  writeUint32 (word_of_int (X (Max_r bounds) - X (Min_r bounds))) @
                  writeUint32 (word_of_int (Y (Max_r bounds) - Y (Min_r bounds))) @
                  writeUint32 (word_of_int (X (Min_r bounds))) @
                  writeUint32 (word_of_int (Y (Min_r bounds))) @
                  writeUint16 (Delays a ! frameIndex) @
                  writeUint16 100 @
                  [case Disposals a of None \<Rightarrow> 0 | Some ds \<Rightarrow> ds ! frameIndex] @
                  [0];
                e = writeChunk e tmp ''fcTL''
            in e\<lparr>seqNum := seqNum e + 1\<rparr>)"

text \<open>\<^verbatim>\<open>writeIDATs\<close> and \<^verbatim>\<open>writefdATs\<close>: one chunk per element of \<open>idats\<close>, in order.\<close>

definition writeIDATs :: "encoder \<Rightarrow> encoder" where
  "writeIDATs e = foldl (\<lambda>e id'. writeChunk e id' ''IDAT'') e (idats e)"

definition writefdAT :: "encoder \<Rightarrow> byte list \<Rightarrow> encoder" where
  "writefdAT e id' =
     (let fdat = writeUint32 (seqNum e) @ id';
          e = writeChunk e fdat ''fdAT''
      in e\<lparr>seqNum := seqNum e + 1\<rparr>)"

definition writefdATs :: "encoder \<Rightarrow> encoder" where
  "writefdATs e = foldl writefdAT e (idats e)"

section \<open>Parsing the stream of the PNG encoder\<close>

text \<open>The stages of \<^verbatim>\<open>chunkFetcher\<close>, an \<^verbatim>\<open>iota\<close> enumeration.\<close>

datatype stage = dsStart | dsSeenIHDR | dsSeenPLTE | dsSeentRNS | dsSeenIDAT | dsSeenIEND

text \<open>
  A \<^verbatim>\<open>bytes.Buffer\<close> is its unread bytes. \<^verbatim>\<open>Next\<close> hands out at most \<open>n\<close> of them.
  \<^verbatim>\<open>io.ReadFull\<close> into a slice of length \<open>n\<close> fills it, or fails with \<^verbatim>\<open>io.EOF\<close> when
  nothing could be read and with \<^verbatim>\<open>io.ErrUnexpectedEOF\<close> when the buffer ran dry on the
  way; a slice of length 0 is filled without a read.
\<close>

definition Buffer_Next :: "byte list \<Rightarrow> nat \<Rightarrow> byte list \<times> byte list" where
  "Buffer_Next bb n = (drop n bb, take n bb)"

definition ReadFull :: "byte list \<Rightarrow> nat \<Rightarrow> byte list \<times> (error + byte list)" where
  "ReadFull bb n =
     (if n = 0 then (bb, Inr [])
      else if bb = [] then (bb, Inl EOF)
      else if length bb < n then ([], Inl ErrUnexpectedEOF)
      else (drop n bb, Inr (take n bb)))"

record pngChunk =
  pc_ihdr :: "byte list"
  pc_idats :: "byte list list"
  pc_plte :: "byte list option"
  pc_trns :: "byte list option"

text \<open>
  \<^verbatim>\<open>chunkFetcher\<close>. \<open>pc\<close> is a pointer, nil in \<^verbatim>\<open>fetchPaletteChunk\<close>; \<open>plte\<close> and \<open>trns\<close>
  are nil until a chunk of that type has been parsed. The scratch array \<^verbatim>\<open>tmp\<close> has 768
  bytes, so slicing it to more panics.
\<close>

record chunkFetcher =
  bb :: "byte list"
  stage :: stage
  pc :: "pngChunk option"
  plte :: "byte list option"
  trns :: "byte list option"

definition parseIHDR :: "chunkFetcher \<Rightarrow> u32 \<Rightarrow> chunkFetcher \<times> error option" where
  "parseIHDR c length' =
     (if 768 < unat length' then (c, Some Panic)
      else case ReadFull (bb c) (unat length') of
        (bb', Inl er) \<Rightarrow> (c\<lparr>bb := bb'\<rparr>, Some er)
      | (bb', Inr tmp) \<Rightarrow>
          (case pc c of
             None \<Rightarrow> (c\<lparr>bb := bb'\<rparr>, Some Panic)
           | Some p \<Rightarrow> (c\<lparr>bb := bb', pc := Some (p\<lparr>pc_ihdr := tmp\<rparr>)\<rparr>, None)))"

definition parseIDAT :: "chunkFetcher \<Rightarrow> u32 \<Rightarrow> chunkFetcher \<times> error option" where
  "parseIDAT c length' =
     (let (bb', id') = Buffer_Next (bb c) (unat length');
          c = c\<lparr>bb := bb'\<rparr>
      in if length id' < unat length' then (c, Some EOF)
         else case pc c of
           None \<Rightarrow> (c, Some Panic)
         | Some p \<Rightarrow> (c\<lparr>pc := Some (p\<lparr>pc_idats := pc_idats p @ [id']\<rparr>)\<rparr>, None))"

text \<open>
  \<^verbatim>\<open>parsePLTE\<close> and \<^verbatim>\<open>parsetRNS\<close> keep the chunk framed: length, tag, payload. The sum
  \<open>length+8\<close> is a \<open>uint32\<close>; were it to wrap, the allocation would be shorter than 8 bytes
  and the slicing that follows would panic.
\<close>

definition parsePLTE :: "chunkFetcher \<Rightarrow> u32 \<Rightarrow> chunkFetcher \<times> error option" where
  "parsePLTE c length' =
     (case ReadFull (bb c) (unat length') of
        (bb', Inl er) \<Rightarrow> (c\<lparr>bb := bb'\<rparr>, Some er)
      | (bb', Inr data) \<Rightarrow>
          if unat (length' + 8) < 8 then (c\<lparr>bb := bb'\<rparr>, Some Panic)
          else
            let c = c\<lparr>bb := bb',
                      plte := Some (writeUint32 length' @ map of_char ''PLTE'' @ data)\<rparr>
            in (case pc c of
                  None \<Rightarrow> (c, None)
                | Some p \<Rightarrow> (c\<lparr>pc := Some (p\<lparr>pc_plte := Some data\<rparr>)\<rparr>, None)))"

definition parsetRNS :: "chunkFetcher \<Rightarrow> u32 \<Rightarrow> chunkFetcher \<times> error option" where
  "parsetRNS c length' =
     (case ReadFull (bb c) (unat length') of
        (bb', Inl er) \<Rightarrow> (c\<lparr>bb := bb'\<rparr>, Some er)
      | (bb', Inr data) \<Rightarrow>
          if unat (length' + 8) < 8 then (c\<lparr>bb := bb'\<rparr>, Some Panic)
          else
            let c = c\<lparr>bb := bb',
                      trns := Some (writeUint32 length' @ map of_char ''tRNS'' @ data)\<rparr>
            in (case pc c of
                  None \<Rightarrow> (c, None)
                | Some p \<Rightarrow> (c\<lparr>pc := Some (p\<lparr>pc_trns := Some data\<rparr>)\<rparr>, None)))"

text \<open>
  \<^verbatim>\<open>parsePNGChunk\<close> (the revision with the \<^verbatim>\<open>default\<close> arm): header of 8 bytes, dispatch
  on the tag, then 4 bytes of CRC dropped unread. \<open>skip_crc\<close> is that last step; after a
  panic there is no last step.
\<close>

definition skip_crc :: "chunkFetcher \<times> error option \<Rightarrow> chunkFetcher \<times> error option" where
  "skip_crc r =
     (case r of (c, er) \<Rightarrow>
        if er = Some Panic then (c, er) else (c\<lparr>bb := fst (Buffer_Next (bb c) 4)\<rparr>, er))"

definition parsePNGChunk :: "chunkFetcher \<Rightarrow> chunkFetcher \<times> error option" where
  "parsePNGChunk c =
     (case ReadFull (bb c) 8 of
        (bb', Inl er) \<Rightarrow> (c\<lparr>bb := bb'\<rparr>, Some er)
      | (bb', Inr tmp) \<Rightarrow>
          let c = c\<lparr>bb := bb'\<rparr>;
              length' = BigEndian_Uint32 (take 4 tmp);
              tag = drop 4 tmp
          in skip_crc
               (if tag = map of_char ''IHDR'' then parseIHDR (c\<lparr>stage := dsSeenIHDR\<rparr>) length'
                else if tag = map of_char ''PLTE'' then parsePLTE (c\<lparr>stage := dsSeenPLTE\<rparr>) length'
                else if tag = map of_char ''tRNS'' then parsetRNS (c\<lparr>stage := dsSeentRNS\<rparr>) length'
                else if tag = map of_char ''IDAT'' then parseIDAT (c\<lparr>stage := dsSeenIDAT\<rparr>) length'
                else if tag = map of_char ''IEND'' then (c\<lparr>stage := dsSeenIEND\<rparr>, None)
                else (c\<lparr>bb := fst (Buffer_Next (bb c) (unat length'))\<rparr>, None)))"

definition parsePNGChunkWithPalette :: "chunkFetcher \<Rightarrow> chunkFetcher \<times> error option" where
  "parsePNGChunkWithPalette c =
     (case ReadFull (bb c) 8 of
        (bb', Inl er) \<Rightarrow> (c\<lparr>bb := bb'\<rparr>, Some er)
      | (bb', Inr tmp) \<Rightarrow>
          let c = c\<lparr>bb := bb'\<rparr>;
              length' = BigEndian_Uint32 (take 4 tmp);
              tag = drop 4 tmp
          in skip_crc
               (if tag = map of_char ''IHDR'' then
                  (let c = c\<lparr>stage := dsSeenIHDR\<rparr>
                   in if 768 < unat length' then (c, Some Panic)
                      else case ReadFull (bb c) (unat length') of
                        (bb', Inl er) \<Rightarrow> (c\<lparr>bb := bb'\<rparr>, Some er)
                      | (bb', Inr _) \<Rightarrow> (c\<lparr>bb := bb'\<rparr>, None))
                else if tag = map of_char ''PLTE'' then parsePLTE (c\<lparr>stage := dsSeenPLTE\<rparr>) length'
                else if tag = map of_char ''tRNS'' then parsetRNS (c\<lparr>stage := dsSeentRNS\<rparr>) length'
                else if tag = map of_char ''IDAT'' then
                  (c\<lparr>stage := dsSeenIDAT, bb := fst (Buffer_Next (bb c) (unat length'))\<rparr>, None)
                else if tag = map of_char ''IEND'' then (c\<lparr>stage := dsSeenIEND\<rparr>, None)
                else (c\<lparr>bb := fst (Buffer_Next (bb c) (unat length'))\<rparr>, None)))"

definition pngHeader :: "byte list" where
  "pngHeader = [0x89, 0x50, 0x4E, 0x47, 0x0D, 0x0A, 0x1A, 0x0A]"

text \<open>
  The loops of \<^verbatim>\<open>fetchPNGChunk\<close> and \<^verbatim>\<open>fetchPaletteChunk\<close>: parse chunks until the stage
  is \<^verbatim>\<open>dsSeenIEND\<close>; an error ends the loop, \<^verbatim>\<open>io.EOF\<close> turned into
  \<^verbatim>\<open>io.ErrUnexpectedEOF\<close>. A chunk parsed without error has consumed its 8 header bytes,
  so the loops end.
\<close>

function fetchPNGChunk_loop :: "chunkFetcher \<Rightarrow> error + chunkFetcher" where
  "fetchPNGChunk_loop c =
     (if stage c = dsSeenIEND then Inr c
      else case parsePNGChunk c of
        (c', Some er) \<Rightarrow> Inl (if er = EOF then ErrUnexpectedEOF else er)
      | (c', None) \<Rightarrow> fetchPNGChunk_loop c')"
  by pat_completeness auto
termination
  by (relation "measure (\<lambda>c. length (bb c))")
    (auto simp: parsePNGChunk_def skip_crc_def parseIHDR_def parsePLTE_def parsetRNS_def
      parseIDAT_def ReadFull_def Buffer_Next_def Let_def
      split: if_splits prod.splits sum.splits option.splits)

declare fetchPNGChunk_loop.simps [simp del]

function fetchPaletteChunk_loop :: "chunkFetcher \<Rightarrow> error + chunkFetcher" where
  "fetchPaletteChunk_loop c =
     (if stage c = dsSeenIEND then Inr c
      else case parsePNGChunkWithPalette c of
        (c', Some er) \<Rightarrow> Inl (if er = EOF then ErrUnexpectedEOF else er)
      | (c', None) \<Rightarrow> fetchPaletteChunk_loop c')"
  by pat_completeness auto
termination
  by (relation "measure (\<lambda>c. length (bb c))")
    (auto simp: parsePNGChunkWithPalette_def skip_crc_def parsePLTE_def parsetRNS_def
      ReadFull_def Buffer_Next_def Let_def
      split: if_splits prod.splits sum.splits option.splits)

declare fetchPaletteChunk_loop.simps [simp del]

definition fetchPNGChunk :: "byte list \<Rightarrow> error + pngChunk" where
  "fetchPNGChunk buf =
     (let c = \<lparr>bb = fst (Buffer_Next buf (length pngHeader)), stage = dsStart,
               pc = Some \<lparr>pc_ihdr = [], pc_idats = [], pc_plte = None, pc_trns = None\<rparr>,
               plte = None, trns = None\<rparr>
      in case fetchPNGChunk_loop c of
           Inl er \<Rightarrow> Inl er
         | Inr c \<Rightarrow> (case pc c of None \<Rightarrow> Inl Panic | Some p \<Rightarrow> Inr p))"

definition fetchPaletteChunk :: "byte list \<Rightarrow> error + (byte list option \<times> byte list option)" where
  "fetchPaletteChunk buf =
     (let c = \<lparr>bb = fst (Buffer_Next buf (length pngHeader)), stage = dsStart,
               pc = None, plte = None, trns = None\<rparr>
      in case fetchPaletteChunk_loop c of
           Inl er \<Rightarrow> Inl er
         | Inr c \<Rightarrow> Inr (plte c, trns c))"


section \<open>Validation\<close>

text \<open>
  \<^verbatim>\<open>fullfillFrameRegionConstraints\<close>: frame 0 is the reference; the loop runs over the
  frames from index 1.
\<close>

fun fullfillFrameRegionConstraints_loop :: "rectangle \<Rightarrow> image option list \<Rightarrow> bool" where
  "fullfillFrameRegionConstraints_loop reference [] = True"
| "fullfillFrameRegionConstraints_loop reference (None # imgs) = False"
| "fullfillFrameRegionConstraints_loop reference (Some im # imgs) =
     (let bounds = Bounds im
      in if \<not> (X (Min_r bounds) \<ge> 0 \<and> Y (Min_r bounds) \<ge> 0 \<and>
                X (Max_r bounds) \<le> X (Max_r reference) \<and> Y (Max_r bounds) \<le> Y (Max_r reference))
         then False
         else fullfillFrameRegionConstraints_loop reference imgs)"

definition fullfillFrameRegionConstraints :: "image option list \<Rightarrow> bool" where
  "fullfillFrameRegionConstraints img =
     (case img of
        [] \<Rightarrow> False
      | None # _ \<Rightarrow> False
      | Some im0 # rest \<Rightarrow>
          let reference = Bounds im0
          in if \<not> (X (Min_r reference) \<ge> 0 \<and> Y (Min_r reference) \<ge> 0) then False
             else fullfillFrameRegionConstraints_loop reference rest)"

text \<open>
  \<^verbatim>\<open>isSameColorModel\<close>, which only the earlier revision of \<^verbatim>\<open>EncodeAll\<close> (the one without
  palette handling) calls. \<open>!=\<close> on two interface values of the same uncomparable dynamic
  type (two palettes) panics; values of different dynamic types are unequal.
\<close>

fun model_neq :: "color_model \<Rightarrow> color_model \<Rightarrow> bool option" where
  "model_neq (ModelFunc p) (ModelFunc q) = Some (p \<noteq> q)"
| "model_neq (Palette p) (Palette q) = None"
| "model_neq _ _ = Some True"

fun isSameColorModel_loop :: "color_model \<Rightarrow> image option list \<Rightarrow> error + bool" where
  "isSameColorModel_loop reference [] = Inr True"
| "isSameColorModel_loop reference (None # imgs) = Inr False"
| "isSameColorModel_loop reference (Some im # imgs) =
     (case model_neq (ColorModel im) reference of
        None \<Rightarrow> Inl Panic
      | Some True \<Rightarrow> Inr False
      | Some False \<Rightarrow> isSameColorModel_loop reference imgs)"

definition isSameColorModel :: "image option list \<Rightarrow> error + bool" where
  "isSameColorModel img =
     (case img of
        [] \<Rightarrow> Inr False
      | None # _ \<Rightarrow> Inr False
      | Some im0 # rest \<Rightarrow> isSameColorModel_loop (ColorModel im0) rest)"

section \<open>Assembling the container\<close>

text \<open>
  \<^verbatim>\<open>png.Encode\<close> is the external encoder: a parameter \<open>png_Encode\<close>, giving for an image
  its byte stream or the message of its error.

  \<open>frame_worker\<close> is the goroutine \<^verbatim>\<open>EncodeAll\<close> starts for each frame, up to the point
  where it either has an error to store or a \<^verbatim>\<open>frameData\<close> to send.
\<close>

record frameData =
  index :: nat
  fd_ihdr :: "byte list"
  fd_idats :: "byte list list"
  fd_isPaletted :: bool

definition encodePalettedImage ::
  "(image \<Rightarrow> string + byte list) \<Rightarrow> image \<Rightarrow> error + pngChunk" where
  "encodePalettedImage png_Encode img =
     (case png_Encode img of
        Inl msg \<Rightarrow> Inl (ErrPaletteEncoding msg)
      | Inr buf \<Rightarrow> fetchPNGChunk buf)"

definition frame_worker ::
  "(image \<Rightarrow> string + byte list) \<Rightarrow> nat \<Rightarrow> image option \<Rightarrow> error + frameData" where
  "frame_worker png_Encode i img =
     (case img of
        None \<Rightarrow> Inl Panic
      | Some im \<Rightarrow>
          (case (if isPaletted im then encodePalettedImage png_Encode im
                 else (case png_Encode im of
                         Inl msg \<Rightarrow> Inl (ErrPngEncoding msg)
                       | Inr buf \<Rightarrow> fetchPNGChunk buf)) of
             Inl er \<Rightarrow> Inl er
           | Inr p \<Rightarrow>
               Inr \<lparr>index = i, fd_ihdr = pc_ihdr p, fd_idats = pc_idats p,
                    fd_isPaletted = isPaletted im\<rparr>))"

text \<open>
  The goroutines finish in some order \<open>sched\<close>, a permutation of the frame indices. Each
  one that fails stores its error unless one is stored already; each one that succeeds
  puts its result into \<^verbatim>\<open>frameDataMap\<close> under its index. A panic in a goroutine ends the
  program whatever was stored before.
\<close>

fun collect ::
  "(image \<Rightarrow> string + byte list) \<Rightarrow> image option list \<Rightarrow> nat list \<Rightarrow>
   error option \<times> (nat \<rightharpoonup> frameData) \<Rightarrow> error option \<times> (nat \<rightharpoonup> frameData)" where
  "collect png_Encode imgs [] s = s"
| "collect png_Encode imgs (i # sched) (er, frameDataMap) =
     collect png_Encode imgs sched
       (if \<not> i < length imgs then (er, frameDataMap)
        else case frame_worker png_Encode i (imgs ! i) of
          Inl x \<Rightarrow>
            (if x = Panic then Some Panic else if er = None then Some x else er, frameDataMap)
        | Inr fd \<Rightarrow> (er, frameDataMap(index fd \<mapsto> fd)))"

definition valid_schedule :: "nat \<Rightarrow> nat list \<Rightarrow> bool" where
  "valid_schedule n sched \<longleftrightarrow> distinct sched \<and> set sched = {0..<n}"

text \<open>
  The palette of the first frame (lines 769-784 of \<^verbatim>\<open>EncodeAll\<close>): \<open>hasFirstPaletted\<close>,
  \<open>globalPLTE\<close> and \<open>globalTRNS\<close>, or the error \<^verbatim>\<open>EncodeAll\<close> returns there.
\<close>

definition first_palette ::
  "(image \<Rightarrow> string + byte list) \<Rightarrow> image option \<Rightarrow>
   error + (bool \<times> byte list option \<times> byte list option)" where
  "first_palette png_Encode img0 =
     (case img0 of
        None \<Rightarrow> Inr (False, None, None)
      | Some firstImg \<Rightarrow>
          if isPaletted firstImg then
            (case png_Encode firstImg of
               Inl msg \<Rightarrow> Inl (ErrPngEncoding msg)
             | Inr buf \<Rightarrow>
                 (case fetchPaletteChunk buf of
                    Inl er \<Rightarrow> Inl er
                  | Inr (p, t) \<Rightarrow> Inr (True, p, t)))
          else Inr (False, None, None))"

text \<open>
  The slice expression \<open>g[8:8+binary.BigEndian.Uint32(g[:4])]\<close>, with the sum taken in
  \<open>uint32\<close>; \<open>None\<close> where it panics.
\<close>

definition framed_payload :: "byte list \<Rightarrow> byte list option" where
  "framed_payload g =
     (if length g < 4 then None
      else let hi = unat (8 + BigEndian_Uint32 (take 4 g))
           in if hi < 8 \<or> length g < hi then None
              else Some (take (hi - 8) (drop 8 g)))"

text \<open>Lines 869-877 of \<^verbatim>\<open>EncodeAll\<close>: the global palette and transparency chunks.\<close>

definition write_global_palette ::
  "encoder \<Rightarrow> bool \<Rightarrow> byte list option \<Rightarrow> byte list option \<Rightarrow> encoder" where
  "write_global_palette e hasFirstPaletted globalPLTE globalTRNS =
     (if \<not> hasFirstPaletted then e
      else (case globalPLTE of
              None \<Rightarrow> e
            | Some g \<Rightarrow>
                (case framed_payload g of
                   None \<Rightarrow> e\<lparr>err := Some Panic\<rparr>
                 | Some p \<Rightarrow>
                     (let e = writeChunk e p ''PLTE''
                      in (case globalTRNS of
                            None \<Rightarrow> e
                          | Some g' \<Rightarrow>
                              (case framed_payload g' of
                                 None \<Rightarrow> e\<lparr>err := Some Panic\<rparr>
                               | Some t \<Rightarrow> writeChunk e t ''tRNS''))))))"

text \<open>
  Lines 883-895: the frames after the first, in index order. A frame missing from the map
  ends \<^verbatim>\<open>EncodeAll\<close> on the spot (\<open>Inl\<close>, with the encoder as it is then).
\<close>

fun EncodeAll_frames ::
  "(nat \<rightharpoonup> frameData) \<Rightarrow> nat list \<Rightarrow> encoder \<Rightarrow> (encoder \<times> error) + encoder" where
  "EncodeAll_frames frameDataMap [] e = Inr e"
| "EncodeAll_frames frameDataMap (i # rest) e =
     (case frameDataMap i of
        None \<Rightarrow> Inl (e, ErrMissingFrame i)
      | Some fd \<Rightarrow>
          let e = e\<lparr>ihdr := fd_ihdr fd, idats := fd_idats fd\<rparr>;
              e = writefcTL e i;
              e = writefdATs e
          in EncodeAll_frames frameDataMap rest e)"

text \<open>
  \<^verbatim>\<open>EncodeAll\<close> (the revision with palette handling), returning the writer as it leaves it
  and the error.
\<close>

definition EncodeAll ::
  "(image \<Rightarrow> string + byte list) \<Rightarrow> nat list \<Rightarrow> writer \<Rightarrow> APNG \<Rightarrow> writer \<times> error option" where
  "EncodeAll png_Encode sched w a =
     (if length (Images a) = 0 then (w, Some ErrNeedImage)
      else if length (Images a) \<noteq> length (Delays a) then (w, Some ErrDelayMismatch)
      else if (case Disposals a of None \<Rightarrow> False | Some ds \<Rightarrow> length (Images a) \<noteq> length ds)
      then (w, Some ErrDisposalMismatch)
      else if \<not> fullfillFrameRegionConstraints (Images a) then (w, Some ErrRegion)
      else
        (let (w, r) = Write w pngHeader;
             e = \<lparr>aPNG = a, writer = w, seqNum = 0, ihdr = [], idats = [], err = r\<rparr>
         in (case first_palette png_Encode (Images a ! 0) of
               Inl er \<Rightarrow> (writer e, Some er)
             | Inr (hasFirstPaletted, globalPLTE, globalTRNS) \<Rightarrow>
                 (let (r, frameDataMap) = collect png_Encode (Images a) sched (err e, Map.empty);
                      e = e\<lparr>err := r\<rparr>
                  in if err e \<noteq> None then (writer e, err e)
                     else (case frameDataMap 0 of
                             None \<Rightarrow> (writer e, Some (ErrMissingFrame 0))
                           | Some fd \<Rightarrow>
                               (let e = e\<lparr>ihdr := fd_ihdr fd, idats := fd_idats fd\<rparr>;
                                    e = writeIHDR e;
                                    e = write_global_palette e hasFirstPaletted globalPLTE
                                          globalTRNS;
                                    e = writeacTL e;
                                    e = writefcTL e 0;
                                    e = writeIDATs e
                                in (case EncodeAll_frames frameDataMap
                                           [1..<length (Images a)] e of
                                      Inl (e, er) \<Rightarrow> (writer e, Some er)
                                    | Inr e \<Rightarrow>
                                        (let e = writeIEND e in (writer e, err e)))))))))"

section \<open>The earlier revision\<close>

text \<open>
  \<^verbatim>\<open>writer.go\<close> holds the package twice. Its first copy (lines 1-381) is the revision
  before palette handling; \<^verbatim>\<open>writeChunk\<close>, \<^verbatim>\<open>writeIHDR\<close>, \<^verbatim>\<open>writeacTL\<close>, \<^verbatim>\<open>writeIDATs\<close>,
  \<^verbatim>\<open>writeIEND\<close>, \<^verbatim>\<open>parseIHDR\<close>, \<^verbatim>\<open>parseIDAT\<close> and \<^verbatim>\<open>fullfillFrameRegionConstraints\<close> read
  the same in both. What differs is modelled here under the name of the function with the
  suffix \<open>_rev1\<close>.

  \<^verbatim>\<open>writefcTL\<close> of lines 114-128 never reads \<open>Disposals\<close>: byte 24 of the payload is 0.
\<close>

definition writefcTL_rev1 :: "encoder \<Rightarrow> nat \<Rightarrow> encoder" where
  "writefcTL_rev1 e frameIndex =
     (let a = aPNG e in
      if \<not> frameIndex < length (Images a) then e\<lparr>err := Some Panic\<rparr>
      else case Images a ! frameIndex of
        None \<Rightarrow> e\<lparr>err := Some Panic\<rparr>
      | Some img \<Rightarrow>
          if \<not> frameIndex < length (Delays a) then e\<lparr>err := Some Panic\<rparr>
          else
            let bounds = Bounds img;
                tmp =
                  writeUint32 (seqNum e) @
                  writeUint32 (word_of_int (X (Max_r bounds) - X (Min_r bounds))) @
                  writeUint32 (word_of_int (Y (Max_r bounds) - Y (Min_r bounds))) @
                  writeUint32 (word_of_int (X (Min_r bounds))) @
                  writeUint32 (word_of_int (Y (Min_r bounds))) @
                  writeUint16 (Delays a ! frameIndex) @
                  writeUint16 100 @
                  [0] @
                  [0];
                e = writeChunk e tmp ''fcTL''
            in e\<lparr>seqNum := seqNum e + 1\<rparr>)"

text \<open>
  \<^verbatim>\<open>writefdATs\<close> of lines 136-145 allocates \<open>make([]byte, 4, len(id))\<close>, which panics when
  the capacity \<open>len(id)\<close> is below the length 4.
\<close>

definition writefdAT_rev1 :: "encoder \<Rightarrow> byte list \<Rightarrow> encoder" where
  "writefdAT_rev1 e id' =
     (if length id' < 4 then e\<lparr>err := Some Panic\<rparr>
      else
        let fdat = writeUint32 (seqNum e) @ id';
            e = writeChunk e fdat ''fdAT''
        in e\<lparr>seqNum := seqNum e + 1\<rparr>)"

definition writefdATs_rev1 :: "encoder \<Rightarrow> encoder" where
  "writefdATs_rev1 e = foldl writefdAT_rev1 e (idats e)"

text \<open>
  \<^verbatim>\<open>parsePNGChunk\<close> of lines 182-207: the arms for \<^verbatim>\<open>PLTE\<close> and \<^verbatim>\<open>tRNS\<close> are empty and
  there is no \<^verbatim>\<open>default\<close> arm, so the payload of any chunk other than \<^verbatim>\<open>IHDR\<close> and
  \<^verbatim>\<open>IDAT\<close> stays in the buffer. The fetcher of this revision has no palette fields; they
  stay \<open>None\<close> here.
\<close>

definition parsePNGChunk_rev1 :: "chunkFetcher \<Rightarrow> chunkFetcher \<times> error option" where
  "parsePNGChunk_rev1 c =
     (case ReadFull (bb c) 8 of
        (bb', Inl er) \<Rightarrow> (c\<lparr>bb := bb'\<rparr>, Some er)
      | (bb', Inr tmp) \<Rightarrow>
          let c = c\<lparr>bb := bb'\<rparr>;
              length' = BigEndian_Uint32 (take 4 tmp);
              tag = drop 4 tmp
          in skip_crc
               (if tag = map of_char ''IHDR'' then parseIHDR (c\<lparr>stage := dsSeenIHDR\<rparr>) length'
                else if tag = map of_char ''PLTE'' then (c, None)
                else if tag = map of_char ''tRNS'' then (c, None)
                else if tag = map of_char ''IDAT'' then parseIDAT (c\<lparr>stage := dsSeenIDAT\<rparr>) length'
                else if tag = map of_char ''IEND'' then (c\<lparr>stage := dsSeenIEND\<rparr>, None)
                else (c, None)))"

function fetchPNGChunk_rev1_loop :: "chunkFetcher \<Rightarrow> error + chunkFetcher" where
  "fetchPNGChunk_rev1_loop c =
     (if stage c = dsSeenIEND then Inr c
      else case parsePNGChunk_rev1 c of
        (c', Some er) \<Rightarrow> Inl (if er = EOF then ErrUnexpectedEOF else er)
      | (c', None) \<Rightarrow> fetchPNGChunk_rev1_loop c')"
  by pat_completeness auto
termination
  by (relation "measure (\<lambda>c. length (bb c))")
    (auto simp: parsePNGChunk_rev1_def skip_crc_def parseIHDR_def parseIDAT_def ReadFull_def
      Buffer_Next_def Let_def
      split: if_splits prod.splits sum.splits option.splits)

declare fetchPNGChunk_rev1_loop.simps [simp del]

definition fetchPNGChunk_rev1 :: "byte list \<Rightarrow> error + pngChunk" where
  "fetchPNGChunk_rev1 buf =
     (let c = \<lparr>bb = fst (Buffer_Next buf (length pngHeader)), stage = dsStart,
               pc = Some \<lparr>pc_ihdr = [], pc_idats = [], pc_plte = None, pc_trns = None\<rparr>,
               plte = None, trns = None\<rparr>
      in case fetchPNGChunk_rev1_loop c of
           Inl er \<Rightarrow> Inl er
         | Inr c \<Rightarrow> (case pc c of None \<Rightarrow> Inl Panic | Some p \<Rightarrow> Inr p))"

text \<open>
  The goroutine of lines 305-336, the same for every image type (\<^verbatim>\<open>frameData\<close> has no
  \<open>isPaletted\<close> there; the field is \<open>False\<close>), and the collection of the results.
\<close>

definition frame_worker_rev1 ::
  "(image \<Rightarrow> string + byte list) \<Rightarrow> nat \<Rightarrow> image option \<Rightarrow> error + frameData" where
  "frame_worker_rev1 png_Encode i img =
     (case img of
        None \<Rightarrow> Inl Panic
      | Some im \<Rightarrow>
          (case png_Encode im of
             Inl msg \<Rightarrow> Inl (ErrPngEncoding msg)
           | Inr buf \<Rightarrow>
               (case fetchPNGChunk_rev1 buf of
                  Inl er \<Rightarrow> Inl er
                | Inr p \<Rightarrow>
                    Inr \<lparr>index = i, fd_ihdr = pc_ihdr p, fd_idats = pc_idats p,
                         fd_isPaletted = False\<rparr>)))"

fun collect_rev1 ::
  "(image \<Rightarrow> string + byte list) \<Rightarrow> image option list \<Rightarrow> nat list \<Rightarrow>
   error option \<times> (nat \<rightharpoonup> frameData) \<Rightarrow> error option \<times> (nat \<rightharpoonup> frameData)" where
  "collect_rev1 png_Encode imgs [] s = s"
| "collect_rev1 png_Encode imgs (i # sched) (er, frameDataMap) =
     collect_rev1 png_Encode imgs sched
       (if \<not> i < length imgs then (er, frameDataMap)
        else case frame_worker_rev1 png_Encode i (imgs ! i) of
          Inl x \<Rightarrow>
            (if x = Panic then Some Panic else if er = None then Some x else er, frameDataMap)
        | Inr fd \<Rightarrow> (er, frameDataMap(index fd \<mapsto> fd)))"

text \<open>Lines 357-376: all frames in index order, frame 0 with the header chunks.\<close>

fun EncodeAll_rev1_frames ::
  "(nat \<rightharpoonup> frameData) \<Rightarrow> nat list \<Rightarrow> encoder \<Rightarrow> (encoder \<times> error) + encoder" where
  "EncodeAll_rev1_frames frameDataMap [] e = Inr e"
| "EncodeAll_rev1_frames frameDataMap (i # rest) e =
     (case frameDataMap i of
        None \<Rightarrow> Inl (e, ErrMissingFrame i)
      | Some fd \<Rightarrow>
          let e = e\<lparr>ihdr := fd_ihdr fd, idats := fd_idats fd\<rparr>;
              e = (if i = 0 then
                     (let e = writeIHDR e;
                          e = writeacTL e;
                          e = writefcTL_rev1 e i
                      in writeIDATs e)
                   else
                     (let e = writefcTL_rev1 e i
                      in writefdATs_rev1 e))
          in EncodeAll_rev1_frames frameDataMap rest e)"

text \<open>
  \<^verbatim>\<open>EncodeAll\<close> of lines 264-381. It calls \<^verbatim>\<open>isSameColorModel\<close> after the three count
  checks and before the region check; a panic of the comparison ends the run.
\<close>

definition EncodeAll_rev1 ::
  "(image \<Rightarrow> string + byte list) \<Rightarrow> nat list \<Rightarrow> writer \<Rightarrow> APNG \<Rightarrow> writer \<times> error option" where
  "EncodeAll_rev1 png_Encode sched w a =
     (if length (Images a) = 0 then (w, Some ErrNeedImage)
      else if length (Images a) \<noteq> length (Delays a) then (w, Some ErrDelayMismatch)
      else if (case Disposals a of None \<Rightarrow> False | Some ds \<Rightarrow> length (Images a) \<noteq> length ds)
      then (w, Some ErrDisposalMismatch)
      else
        (case isSameColorModel (Images a) of
           Inl er \<Rightarrow> (w, Some er)
         | Inr same \<Rightarrow>
             if \<not> same then (w, Some ErrColorModel)
             else if \<not> fullfillFrameRegionConstraints (Images a) then (w, Some ErrRegion)
             else
               (let (w, r) = Write w pngHeader;
                    e = \<lparr>aPNG = a, writer = w, seqNum = 0, ihdr = [], idats = [], err = r\<rparr>;
                    (r, frameDataMap) =
                      collect_rev1 png_Encode (Images a) sched (err e, Map.empty);
                    e = e\<lparr>err := r\<rparr>
                in if err e \<noteq> None then (writer e, err e)
                   else (case EncodeAll_rev1_frames frameDataMap [0..<length (Images a)] e of
                           Inl (e, er) \<Rightarrow> (writer e, Some er)
                         | Inr e \<Rightarrow> (let e = writeIEND e in (writer e, err e))))))"

text \<open>The errors the specification calls \<open>ValidationError\<close>.\<close>

definition ValidationError :: "error \<Rightarrow> bool" where
  "ValidationError er \<longleftrightarrow>
     er \<in> {ErrNeedImage, ErrDelayMismatch, ErrDisposalMismatch, ErrColorModel, ErrRegion}"

section \<open>Chunks on the wire\<close>

text \<open>
  The layout the container format prescribes for one chunk: length of the payload, type
  tag, payload, CRC-32 over tag and payload. A chunk is its tag and its payload.
\<close>

type_synonym chunk = "byte list \<times> byte list"

definition tag :: "string \<Rightarrow> byte list" where
  "tag name = map of_char name"

definition chunk_bytes :: "chunk \<Rightarrow> byte list" where
  "chunk_bytes c =
     writeUint32 (of_nat (length (snd c))) @ fst c @ snd c @
     writeUint32 (ChecksumIEEE (fst c @ snd c))"

definition wire :: "chunk list \<Rightarrow> byte list" where
  "wire cs = concat (map chunk_bytes cs)"

text \<open>
  Re-parsing a chunk stream, the way a reader of the container does: split at the declared
  lengths and recompute each CRC. \<open>None\<close> for a stream that is cut short or has a CRC
  that does not match.
\<close>

function read_chunks :: "byte list \<Rightarrow> chunk list option" where
  "read_chunks bs =
     (if bs = [] then Some []
      else if length bs < 12 then None
      else
        let n = unat (BigEndian_Uint32 (take 4 bs))
        in if length bs < n + 12 then None
           else
             let t = take 4 (drop 4 bs);
                 p = take n (drop 8 bs)
             in if take 4 (drop (n + 8) bs) \<noteq> writeUint32 (ChecksumIEEE (t @ p)) then None
                else map_option ((#) (t, p)) (read_chunks (drop (n + 12) bs)))"
  by pat_completeness auto
termination
  by (relation "measure length") auto

declare read_chunks.simps [simp del]

text \<open>
  The type tags of the chunks of a stream as its framing gives them: each chunk is 8
  bytes of header, as many payload bytes as the header declares, and 4 bytes of CRC; the
  list ends with the terminator chunk or where the stream is too short for a header.
\<close>

function stream_tags :: "byte list \<Rightarrow> byte list list" where
  "stream_tags bs =
     (if length bs < 8 then []
      else
        let n = unat (BigEndian_Uint32 (take 4 bs));
            t = take 4 (drop 4 bs)
        in t # (if t = tag ''IEND'' then [] else stream_tags (drop (n + 12) bs)))"
  by pat_completeness auto
termination
  by (relation "measure length") auto

declare stream_tags.simps [simp del]

text \<open>
  The chunks of a stream under the same framing, each with the payload its header
  declares, and the payloads of the compressed-data chunks of the stream a PNG encoder
  gave for an image: what follows the 8-byte signature, framed, up to the terminator.
\<close>

function stream_chunks :: "byte list \<Rightarrow> chunk list" where
  "stream_chunks bs =
     (if length bs < 8 then []
      else
        let n = unat (BigEndian_Uint32 (take 4 bs));
            t = take 4 (drop 4 bs)
        in (t, take n (drop 8 bs)) #
           (if t = tag ''IEND'' then [] else stream_chunks (drop (n + 12) bs)))"
  by pat_completeness auto
termination
  by (relation "measure length") auto

declare stream_chunks.simps [simp del]

definition stream_idats :: "byte list \<Rightarrow> byte list list" where
  "stream_idats buf =
     map snd (filter (\<lambda>c. fst c = tag ''IDAT'') (stream_chunks (drop (length pngHeader) buf)))"

section \<open>Sample inputs\<close>

text \<open>
  A stand-in for the PNG encoder that answers every image with a well-framed stream (a
  header chunk, for a paletted image a palette and a transparency chunk, one data chunk
  holding the pixels, the terminator), small animations, a writer that never fails, and
  an encoder whose error field is set.
\<close>

definition demo_Encode :: "image \<Rightarrow> string + byte list" where
  "demo_Encode im =
     Inr (pngHeader @ [0, 0, 0, 1] @ tag ''IHDR'' @ [8] @ [0, 0, 0, 0] @
          (if isPaletted im
           then [0, 0, 0, 3] @ tag ''PLTE'' @ [1, 2, 3] @ [0, 0, 0, 0] @
                [0, 0, 0, 1] @ tag ''tRNS'' @ [9] @ [0, 0, 0, 0]
           else []) @
          writeUint32 (of_nat (length (Pix im))) @ tag ''IDAT'' @ Pix im @ [0, 0, 0, 0] @
          [0, 0, 0, 0] @ tag ''IEND'' @ [0, 0, 0, 0])"

definition demo_image :: "int \<Rightarrow> int \<Rightarrow> int \<Rightarrow> int \<Rightarrow> bool \<Rightarrow> byte list \<Rightarrow> image" where
  "demo_image x0 y0 x1 y1 p px =
     \<lparr>Bounds = \<lparr>Min_r = \<lparr>X = x0, Y = y0\<rparr>, Max_r = \<lparr>X = x1, Y = y1\<rparr>\<rparr>,
      ColorModel = (if p then Palette [1, 2, 3] else ModelFunc 0), isPaletted = p, Pix = px\<rparr>"

definition demo_apng :: APNG where
  "demo_apng = \<lparr>Images = [Some (demo_image 0 0 4 4 False [5, 6]), Some (demo_image 1 1 3 4 False [7])],
     Delays = [10, 10], Disposals = None, LoopCount = 0\<rparr>"

definition demo_writer :: writer where "demo_writer = \<lparr>wdata = [], wscript = []\<rparr>"

definition demo_paletted :: APNG where
  "demo_paletted =
     \<lparr>Images = [Some (demo_image 0 0 4 4 True [5, 6]), Some (demo_image 0 0 4 4 True [7])],
      Delays = [3, 4], Disposals = Some [1, 2], LoopCount = 5\<rparr>"

definition demo_encoder :: encoder where
  "demo_encoder =
     \<lparr>aPNG = demo_apng, writer = demo_writer, seqNum = 0, ihdr = [], idats = [], err = None\<rparr>"

definition failed_encoder :: encoder where
  "failed_encoder = demo_encoder\<lparr>err := Some (IOError 1)\<rparr>"



definition demo_short :: APNG where
  "demo_short = demo_apng\<lparr>Delays := [10]\<rparr>"




definition paletted_encoder :: encoder where
  "paletted_encoder = demo_encoder\<lparr>aPNG := demo_paletted\<rparr>"

definition closed_writer :: writer where
  "closed_writer = \<lparr>wdata = [], wscript = [Some (0, 3)]\<rparr>"

definition refusing_Encode :: "image \<Rightarrow> string + byte list" where
  "refusing_Encode im = Inl ''invalid image size''"

definition demo_blank :: APNG where
  "demo_blank =
     \<lparr>Images = [Some (demo_image 0 0 0 0 True [])],
      Delays = [1], Disposals = None, LoopCount = 0\<rparr>"

section \<open>The container as the specification lays it out\<close>

text \<open>
  The chunk builders of the specification (its section 4.3), in its words: the
  animation-control chunk is frame count and loop count; the frame-control chunk is
  sequence number, width, height, x and y offset (from the bounds of the frame), delay
  numerator, delay denominator 100, dispose operator and blend operator 0; a frame-data
  chunk is a sequence number followed by one data payload.
\<close>

definition buildAnimationControl :: "u32 \<Rightarrow> u32 \<Rightarrow> chunk" where
  "buildAnimationControl frameCount loopCount =
     (tag ''acTL'', writeUint32 frameCount @ writeUint32 loopCount)"

definition buildFrameControl :: "image \<Rightarrow> u16 \<Rightarrow> byte \<Rightarrow> u32 \<Rightarrow> chunk" where
  "buildFrameControl frame delay disposeOp sequenceNo =
     (tag ''fcTL'',
      writeUint32 sequenceNo @
      writeUint32 (word_of_int (X (Max_r (Bounds frame)) - X (Min_r (Bounds frame)))) @
      writeUint32 (word_of_int (Y (Max_r (Bounds frame)) - Y (Min_r (Bounds frame)))) @
      writeUint32 (word_of_int (X (Min_r (Bounds frame)))) @
      writeUint32 (word_of_int (Y (Min_r (Bounds frame)))) @
      writeUint16 delay @ writeUint16 100 @ [disposeOp] @ [0])"

definition buildFrameData :: "byte list \<Rightarrow> u32 \<Rightarrow> chunk" where
  "buildFrameData dataChunkPayload sequenceNo =
     (tag ''fdAT'', writeUint32 sequenceNo @ dataChunkPayload)"

text \<open>
  The frame-control chunk of frame \<open>i\<close> of an animation, and the chunks of the frames
  after the first, numbered in the order of emission from \<open>seq\<close> on: the control chunk
  of a frame takes one number, each of its data chunks the next one. \<open>ds i\<close> is the list
  of data payloads of frame \<open>i\<close>.
\<close>

definition frame_control :: "APNG \<Rightarrow> nat \<Rightarrow> u32 \<Rightarrow> chunk" where
  "frame_control a i seq =
     buildFrameControl (the (Images a ! i)) (Delays a ! i)
       (case Disposals a of None \<Rightarrow> 0 | Some d \<Rightarrow> d ! i) seq"

fun frame_data :: "u32 \<Rightarrow> byte list list \<Rightarrow> chunk list" where
  "frame_data seq [] = []"
| "frame_data seq (d # rest) = buildFrameData d seq # frame_data (seq + 1) rest"

fun later_frames :: "APNG \<Rightarrow> (nat \<Rightarrow> byte list list) \<Rightarrow> u32 \<Rightarrow> nat list \<Rightarrow> chunk list" where
  "later_frames a ds seq [] = []"
| "later_frames a ds seq (i # rest) =
     frame_control a i seq # frame_data (seq + 1) (ds i) @
     later_frames a ds (seq + 1 + of_nat (length (ds i))) rest"

text \<open>
  The whole chunk sequence (section 6 of the specification): header chunk, the global
  palette and transparency chunks \<open>pal\<close> if any, animation control, frame 0 with its
  data as plain \<^verbatim>\<open>IDAT\<close> chunks, the later frames, terminator.
\<close>

definition container :: "APNG \<Rightarrow> byte list \<Rightarrow> chunk list \<Rightarrow> (nat \<Rightarrow> byte list list) \<Rightarrow> chunk list" where
  "container a hdr pal ds =
     (tag ''IHDR'', hdr) # pal @
     buildAnimationControl (of_nat (length (Images a))) (LoopCount a) #
     frame_control a 0 0 # map (Pair (tag ''IDAT'')) (ds 0) @
     later_frames a ds 1 [1..<length (Images a)] @
     [(tag ''IEND'', [])]"

text \<open>
  What \<^verbatim>\<open>EncodeAll\<close> is expected to write for an animation: the container built from
  what the frame workers return (header and data payloads of each frame) and from the
  palette of the first frame.
\<close>

definition palette_chunks :: "bool \<Rightarrow> byte list option \<Rightarrow> byte list option \<Rightarrow> chunk list" where
  "palette_chunks hasFirstPaletted globalPLTE globalTRNS =
     (if \<not> hasFirstPaletted then []
      else (case globalPLTE of
              None \<Rightarrow> []
            | Some g \<Rightarrow>
                (tag ''PLTE'', the (framed_payload g)) #
                (case globalTRNS of
                   None \<Rightarrow> []
                 | Some g' \<Rightarrow> [(tag ''tRNS'', the (framed_payload g'))])))"

definition global_palette :: "(image \<Rightarrow> string + byte list) \<Rightarrow> APNG \<Rightarrow> chunk list" where
  "global_palette png_Encode a =
     (case first_palette png_Encode (Images a ! 0) of
        Inl _ \<Rightarrow> []
      | Inr (h, p, t) \<Rightarrow> palette_chunks h p t)"

definition frame_ihdr :: "(image \<Rightarrow> string + byte list) \<Rightarrow> APNG \<Rightarrow> nat \<Rightarrow> byte list" where
  "frame_ihdr png_Encode a i =
     (case frame_worker png_Encode i (Images a ! i) of Inl _ \<Rightarrow> [] | Inr fd \<Rightarrow> fd_ihdr fd)"

definition frame_idats :: "(image \<Rightarrow> string + byte list) \<Rightarrow> APNG \<Rightarrow> nat \<Rightarrow> byte list list" where
  "frame_idats png_Encode a i =
     (case frame_worker png_Encode i (Images a ! i) of Inl _ \<Rightarrow> [] | Inr fd \<Rightarrow> fd_idats fd)"

definition encoded :: "(image \<Rightarrow> string + byte list) \<Rightarrow> APNG \<Rightarrow> chunk list" where
  "encoded png_Encode a =
     container a (frame_ihdr png_Encode a 0) (global_palette png_Encode a)
       (frame_idats png_Encode a)"


text \<open>
  The sequence number a chunk carries in its first four payload bytes, the chunks that
  carry one, the number of the control chunk of frame \<open>i\<close>, and the chunks of frame \<open>i\<close>.
\<close>

definition seq_no :: "chunk \<Rightarrow> u32" where
  "seq_no c = BigEndian_Uint32 (take 4 (snd c))"

definition sequenced :: "chunk \<Rightarrow> bool" where
  "sequenced c \<longleftrightarrow> fst c = tag ''fcTL'' \<or> fst c = tag ''fdAT''"

fun frame_seq :: "(nat \<Rightarrow> byte list list) \<Rightarrow> nat \<Rightarrow> u32" where
  "frame_seq ds 0 = 0"
| "frame_seq ds (Suc 0) = 1"
| "frame_seq ds (Suc (Suc i)) = frame_seq ds (Suc i) + 1 + of_nat (length (ds (Suc i)))"

definition frame_group :: "APNG \<Rightarrow> (nat \<Rightarrow> byte list list) \<Rightarrow> nat \<Rightarrow> chunk list" where
  "frame_group a ds i =
     frame_control a i (frame_seq ds i) #
     (if i = 0 then map (Pair (tag ''IDAT'')) (ds 0)
      else map (\<lambda>(k, d). buildFrameData d (frame_seq ds i + 1 + of_nat k)) (enumerate 0 (ds i)))"



text \<open>The 32-bit big-endian field at offset \<open>k\<close> of a payload, as a number.\<close>

definition u32_at :: "byte list \<Rightarrow> nat \<Rightarrow> int" where
  "u32_at p k = uint (BigEndian_Uint32 (take 4 (drop k p)))"

text \<open>The 16-bit big-endian field at offset \<open>k\<close>, and the \<^verbatim>\<open>fcTL\<close> chunks of a chunk list.\<close>

definition u16_at :: "byte list \<Rightarrow> nat \<Rightarrow> int" where
  "u16_at p k = uint (BigEndian_Uint16 (take 2 (drop k p)))"

definition frame_controls :: "chunk list \<Rightarrow> chunk list" where
  "frame_controls cs = filter (\<lambda>c. fst c = tag ''fcTL'') cs"

text \<open>
  The payload of a frame-control chunk as the specification lays it out (26 bytes), read
  field by field: sequence number, width, height, x and y offset as 32-bit fields at
  offsets 0, 4, 8, 12 and 16, delay numerator and denominator as 16-bit fields at offsets
  20 and 22, dispose operator at offset 24, blend operator at offset 25.
\<close>

definition frame_control_layout :: "byte list \<Rightarrow> u32 \<Rightarrow> image \<Rightarrow> u16 \<Rightarrow> byte \<Rightarrow> bool" where
  "frame_control_layout p sequenceNo frame delay disposeOp \<longleftrightarrow>
     length p = 26 \<and>
     u32_at p 0 = uint sequenceNo \<and>
     u32_at p 4 = (X (Max_r (Bounds frame)) - X (Min_r (Bounds frame))) mod 2 ^ 32 \<and>
     u32_at p 8 = (Y (Max_r (Bounds frame)) - Y (Min_r (Bounds frame))) mod 2 ^ 32 \<and>
     u32_at p 12 = X (Min_r (Bounds frame)) mod 2 ^ 32 \<and>
     u32_at p 16 = Y (Min_r (Bounds frame)) mod 2 ^ 32 \<and>
     u16_at p 20 = uint delay \<and>
     u16_at p 22 = 100 \<and>
     p ! 24 = disposeOp \<and>
     p ! 25 = 0"

section \<open>Bookkeeping for the proofs\<close>

text \<open>What a sequence of chunk writes has done if it ends without an error.\<close>

definition wrote :: "encoder \<Rightarrow> encoder \<Rightarrow> chunk list \<Rightarrow> bool" where
  "wrote e e' cs \<longleftrightarrow>
     err e = None \<and> aPNG e' = aPNG e \<and>
     wdata (writer e') = wdata (writer e) @ wire cs \<and>
     (\<forall>c \<in> set cs. length (fst c) = 4 \<and> length (snd c) < 2 ^ 32)"


text \<open>
  An encoder that has no error and whose writer will not fail any more, and a framed
  palette or transparency chunk whose slicing does not panic.
\<close>

definition steady :: "encoder \<Rightarrow> bool" where
  "steady e \<longleftrightarrow> err e = None \<and> wscript (writer e) = []"

definition framed :: "byte list option \<Rightarrow> bool" where
  "framed g \<longleftrightarrow> (case g of None \<Rightarrow> True
                 | Some x \<Rightarrow> (case framed_payload x of None \<Rightarrow> False | Some p \<Rightarrow> length p < 2 ^ 32))"

text \<open>Chunks that carry consecutive sequence numbers from \<open>s\<close> on.\<close>

definition numbered :: "u32 \<Rightarrow> chunk list \<Rightarrow> bool" where
  "numbered s cs \<longleftrightarrow> map seq_no cs = map (\<lambda>k. s + of_nat k) [0..<length cs]"


section \<open>Facts about bytes, the CRC and the writer\<close>

lemma simpleUpdate_append:
  "simpleUpdate (simpleUpdate crc p) q = simpleUpdate crc (p @ q)"
  by (simp add: simpleUpdate_def)

lemma crc_streamed:
  "crc32_Sum32 (crc32_Write (crc32_Write crc32_NewIEEE p) q) = ChecksumIEEE (p @ q)"
  by (simp add: crc32_Sum32_def crc32_Write_def crc32_NewIEEE_def ChecksumIEEE_def
      simpleUpdate_append)

lemma length_writeUint32 [simp]: "length (writeUint32 u) = 4"
  by (simp add: writeUint32_def)

lemma length_writeUint16 [simp]: "length (writeUint16 u) = 2"
  by (simp add: writeUint16_def)

lemma length_tag [simp]: "length (tag name) = length name"
  by (simp add: tag_def)

lemma BigEndian_writeUint32: "BigEndian_Uint32 (writeUint32 u) = u"
proof (rule bit_word_eqI)
  fix n assume "n < LENGTH(32)"
  then consider "n < 8" | "8 \<le> n" "n < 16" | "16 \<le> n" "n < 24" | "24 \<le> n" "n < 32"
    by fastforce
  then show "bit (BigEndian_Uint32 (writeUint32 u)) n = bit u n"
    by cases (auto simp: BigEndian_Uint32_def writeUint32_def bit_simps)
qed

lemma BigEndian_prefix:
  "BigEndian_Uint32 (writeUint32 u @ rest) = u"
proof -
  have "BigEndian_Uint32 (writeUint32 u @ rest) = BigEndian_Uint32 (writeUint32 u)"
    by (simp add: BigEndian_Uint32_def writeUint32_def)
  then show ?thesis by (simp add: BigEndian_writeUint32)
qed

lemma unat_of_nat_length:
  "n < 2 ^ 32 \<Longrightarrow> unat (of_nat n :: u32) = n"
  by (simp add: unat_of_nat)

lemma Write_None:
  "Write w p = (w', r) \<Longrightarrow> r = None \<Longrightarrow> wdata w' = wdata w @ p"
  by (auto simp: Write_def split: list.splits option.splits prod.splits)

section \<open>Facts about the chunk writers\<close>

lemma writeChunk_failed: "err e \<noteq> None \<Longrightarrow> writeChunk e b name = e"
  by (simp add: writeChunk_def)

lemma writeChunk_fields:
  "aPNG (writeChunk e b name) = aPNG e"
  "seqNum (writeChunk e b name) = seqNum e"
  "ihdr (writeChunk e b name) = ihdr e"
  "idats (writeChunk e b name) = idats e"
  by (simp_all add: writeChunk_def Let_def split: prod.splits)

lemma writeChunk_ok:
  assumes ok: "err (writeChunk e b name) = None"
  shows "err e = None \<and> length b < 2 ^ 32 \<and> 4 \<le> length name \<and>
         wdata (writer (writeChunk e b name)) =
           wdata (writer e) @ chunk_bytes (tag (take 4 name), b)"
proof -
  define hdr where "hdr = writeUint32 (of_nat (length b)) @ map of_char (take 4 name)"
  define ftr where "ftr = writeUint32 (ChecksumIEEE (map of_char (take 4 name) @ b))"
  have pre: "err e = None" "length b < 2 ^ 32" "4 \<le> length name"
    using ok by (auto simp: writeChunk_def split: if_splits)
  obtain w1 r1 where W1: "Write (writer e) hdr = (w1, r1)" by (cases "Write (writer e) hdr")
  obtain w2 r2 where W2: "Write w1 b = (w2, r2)" by (cases "Write w1 b")
  obtain w3 r3 where W3: "Write w2 ftr = (w3, r3)" by (cases "Write w2 ftr")
  have d4: "drop 4 hdr = map of_char (take 4 name)" by (simp add: hdr_def)
  have unf: "writeChunk e b name =
      (if r1 \<noteq> None then e\<lparr>writer := w1, err := r1\<rparr>
       else if r2 \<noteq> None then e\<lparr>writer := w2, err := r2\<rparr>
       else e\<lparr>writer := w3, err := r3\<rparr>)"
    using pre W1 W2 W3 d4
    by (simp add: writeChunk_def Let_def hdr_def [symmetric] ftr_def [symmetric] crc_streamed)
  from ok unf have r: "r1 = None" "r2 = None" "r3 = None"
    by (auto split: if_splits)
  have res: "writeChunk e b name = e\<lparr>writer := w3, err := None\<rparr>"
    using unf r by simp
  have "wdata w3 = wdata (writer e) @ hdr @ b @ ftr"
    using Write_None [OF W1 r(1)] Write_None [OF W2 r(2)] Write_None [OF W3 r(3)] by simp
  then have "wdata w3 = wdata (writer e) @ chunk_bytes (tag (take 4 name), b)"
    by (simp add: chunk_bytes_def hdr_def ftr_def tag_def)
  with pre res show ?thesis by simp
qed

lemma wire_simps [simp]:
  "wire [] = []"
  "wire (c # cs) = chunk_bytes c @ wire cs"
  "wire (cs @ ds) = wire cs @ wire ds"
  by (simp_all add: wire_def)

lemma wrote_refl: "err e = None \<Longrightarrow> aPNG e' = aPNG e \<Longrightarrow> writer e' = writer e \<Longrightarrow> wrote e e' []"
  by (simp add: wrote_def)

lemma wrote_trans: "wrote e e' cs \<Longrightarrow> wrote e' e'' ds \<Longrightarrow> wrote e e'' (cs @ ds)"
  by (auto simp: wrote_def)

lemma writeChunk_wrote:
  assumes "err (writeChunk e b name) = None" and "length name = 4"
  shows "wrote e (writeChunk e b name) [(tag name, b)]"
  using writeChunk_ok [OF assms(1)] assms(2)
  by (simp add: wrote_def writeChunk_fields)

lemma wrote_err: "wrote e e' cs \<Longrightarrow> err e = None"
  by (simp add: wrote_def)

lemma writefcTL_ok:
  assumes ok: "err (writefcTL e i) = None"
  shows "wrote e (writefcTL e i) [frame_control (aPNG e) i (seqNum e)] \<and>
         seqNum (writefcTL e i) = seqNum e + 1 \<and>
         ihdr (writefcTL e i) = ihdr e \<and> idats (writefcTL e i) = idats e \<and>
         i < length (Images (aPNG e)) \<and> Images (aPNG e) ! i \<noteq> None"
proof -
  let ?a = "aPNG e"
  from ok have i: "i < length (Images ?a)"
    by (auto simp: writefcTL_def Let_def split: if_splits)
  from ok i obtain img where img: "Images ?a ! i = Some img"
    by (cases "Images ?a ! i") (auto simp: writefcTL_def Let_def)
  from ok i img have d: "i < length (Delays ?a)"
    by (auto simp: writefcTL_def Let_def split: if_splits)
  from ok i img d have ds: "\<not> (case Disposals ?a of None \<Rightarrow> False | Some ds \<Rightarrow> \<not> i < length ds)"
    by (auto simp: writefcTL_def Let_def split: if_splits)
  define p where "p = snd (frame_control ?a i (seqNum e))"
  have unf: "writefcTL e i = (writeChunk e p ''fcTL'')\<lparr>seqNum := seqNum (writeChunk e p ''fcTL'') + 1\<rparr>"
    using i img d ds
    by (simp add: writefcTL_def Let_def p_def frame_control_def buildFrameControl_def)
  from ok unf have ok': "err (writeChunk e p ''fcTL'') = None" by simp
  have fc: "frame_control ?a i (seqNum e) = (tag ''fcTL'', p)"
    by (simp add: p_def frame_control_def buildFrameControl_def)
  from writeChunk_wrote [OF ok'] have "wrote e (writeChunk e p ''fcTL'') [(tag ''fcTL'', p)]" by simp
  then have "wrote e (writefcTL e i) [frame_control ?a i (seqNum e)]"
    by (simp add: unf fc wrote_def)
  then show ?thesis using i img by (simp add: unf writeChunk_fields)
qed

lemma writeIDATs_ok:
  assumes "err (foldl (\<lambda>e id'. writeChunk e id' ''IDAT'') e ds) = None"
  shows "wrote e (foldl (\<lambda>e id'. writeChunk e id' ''IDAT'') e ds) (map (Pair (tag ''IDAT'')) ds) \<and>
         seqNum (foldl (\<lambda>e id'. writeChunk e id' ''IDAT'') e ds) = seqNum e"
  using assms
proof (induction ds arbitrary: e)
  case Nil
  then show ?case by (simp add: wrote_def)
next
  case (Cons d ds)
  let ?e1 = "writeChunk e d ''IDAT''"
  from Cons.prems have ok: "err (foldl (\<lambda>e id'. writeChunk e id' ''IDAT'') ?e1 ds) = None" by simp
  from Cons.IH [OF ok] have IH: "wrote ?e1 (foldl (\<lambda>e id'. writeChunk e id' ''IDAT'') ?e1 ds) (map (Pair (tag ''IDAT'')) ds)"
    and sq: "seqNum (foldl (\<lambda>e id'. writeChunk e id' ''IDAT'') ?e1 ds) = seqNum ?e1" by simp_all
  from IH have "err ?e1 = None" by (rule wrote_err)
  from writeChunk_wrote [OF this] have "wrote e ?e1 [(tag ''IDAT'', d)]" by simp
  from wrote_trans [OF this IH] sq show ?case by (simp add: writeChunk_fields)
qed

lemma writefdAT_ok:
  assumes ok: "err (writefdAT e d) = None"
  shows "wrote e (writefdAT e d) [buildFrameData d (seqNum e)] \<and>
         seqNum (writefdAT e d) = seqNum e + 1"
proof -
  from ok have ok': "err (writeChunk e (writeUint32 (seqNum e) @ d) ''fdAT'') = None"
    by (simp add: writefdAT_def Let_def)
  from writeChunk_wrote [OF ok'] show ?thesis
    by (simp add: writefdAT_def Let_def buildFrameData_def wrote_def writeChunk_fields)
qed

lemma writefdATs_ok:
  assumes "err (foldl writefdAT e ds) = None"
  shows "wrote e (foldl writefdAT e ds) (frame_data (seqNum e) ds) \<and>
         seqNum (foldl writefdAT e ds) = seqNum e + of_nat (length ds)"
  using assms
proof (induction ds arbitrary: e)
  case Nil
  then show ?case by (simp add: wrote_def)
next
  case (Cons d ds)
  let ?e1 = "writefdAT e d"
  from Cons.prems have ok: "err (foldl writefdAT ?e1 ds) = None" by simp
  from Cons.IH [OF ok] have IH: "wrote ?e1 (foldl writefdAT ?e1 ds) (frame_data (seqNum ?e1) ds)"
    and sq: "seqNum (foldl writefdAT ?e1 ds) = seqNum ?e1 + of_nat (length ds)" by simp_all
  from IH have e1: "err ?e1 = None" by (rule wrote_err)
  from writefdAT_ok [OF e1] have w1: "wrote e ?e1 [buildFrameData d (seqNum e)]"
    and s1: "seqNum ?e1 = seqNum e + 1" by simp_all
  from wrote_trans [OF w1 IH] sq s1 show ?case by (simp add: add.assoc)
qed

lemma foldl_writeChunk_fields:
  "ihdr (foldl (\<lambda>e id'. writeChunk e id' name) e ds) = ihdr e"
  "idats (foldl (\<lambda>e id'. writeChunk e id' name) e ds) = idats e"
  by (induction ds arbitrary: e) (simp_all add: writeChunk_fields)

lemma write_global_palette_ok:
  assumes ok: "err (write_global_palette e h p t) = None"
  shows "wrote e (write_global_palette e h p t) (palette_chunks h p t) \<and>
         seqNum (write_global_palette e h p t) = seqNum e \<and>
         ihdr (write_global_palette e h p t) = ihdr e \<and>
         idats (write_global_palette e h p t) = idats e"
proof (cases "h \<and> p \<noteq> None")
  case False
  with ok show ?thesis
    by (auto simp: write_global_palette_def palette_chunks_def wrote_def)
next
  case True
  then obtain g where h: h and p: "p = Some g" by auto
  from ok h p obtain pl where pl: "framed_payload g = Some pl"
    by (cases "framed_payload g") (auto simp: write_global_palette_def)
  let ?e1 = "writeChunk e pl ''PLTE''"
  show ?thesis
  proof (cases t)
    case None
    with ok h p pl have "err ?e1 = None" by (simp add: write_global_palette_def)
    from writeChunk_wrote [OF this] show ?thesis
      using h p pl None
      by (simp add: write_global_palette_def palette_chunks_def writeChunk_fields)
  next
    case (Some g')
    from ok h p pl Some obtain tr where tr: "framed_payload g' = Some tr"
      by (cases "framed_payload g'") (auto simp: write_global_palette_def)
    let ?e2 = "writeChunk ?e1 tr ''tRNS''"
    from ok h p pl Some tr have e2: "err ?e2 = None" by (simp add: write_global_palette_def)
    from writeChunk_wrote [OF e2] have w2: "wrote ?e1 ?e2 [(tag ''tRNS'', tr)]" by simp
    then have "err ?e1 = None" by (rule wrote_err)
    from writeChunk_wrote [OF this] have w1: "wrote e ?e1 [(tag ''PLTE'', pl)]" by simp
    from wrote_trans [OF w1 w2] show ?thesis
      using h p pl Some tr
      by (simp add: write_global_palette_def palette_chunks_def writeChunk_fields)
  qed
qed

lemma EncodeAll_frames_ok:
  assumes "EncodeAll_frames m is e = Inr e'" and "err e' = None"
  shows "wrote e e' (later_frames (aPNG e) (\<lambda>i. fd_idats (the (m i))) (seqNum e) is)"
  using assms
proof (induction "is" arbitrary: e)
  case Nil
  then show ?case by (simp add: wrote_def)
next
  case (Cons i rest)
  from Cons.prems(1) obtain fd where fd: "m i = Some fd"
    by (cases "m i") auto
  define e1 where "e1 = e\<lparr>ihdr := fd_ihdr fd, idats := fd_idats fd\<rparr>"
  define e2 where "e2 = writefcTL e1 i"
  define e3 where "e3 = writefdATs e2"
  from Cons.prems(1) fd have rest: "EncodeAll_frames m rest e3 = Inr e'"
    by (simp add: e1_def e2_def e3_def Let_def)
  from Cons.IH [OF rest Cons.prems(2)]
  have w3: "wrote e3 e' (later_frames (aPNG e3) (\<lambda>i. fd_idats (the (m i))) (seqNum e3) rest)" .
  then have "err e3 = None" by (rule wrote_err)
  then have ok3: "err (foldl writefdAT e2 (idats e2)) = None"
    by (simp add: e3_def writefdATs_def)
  from writefdATs_ok [OF ok3]
  have w2: "wrote e2 e3 (frame_data (seqNum e2) (idats e2))"
    and s3: "seqNum e3 = seqNum e2 + of_nat (length (idats e2))"
    by (simp_all add: e3_def writefdATs_def)
  from w2 have "err e2 = None" by (rule wrote_err)
  then have ok2: "err (writefcTL e1 i) = None" by (simp add: e2_def)
  from writefcTL_ok [OF ok2]
  have w1: "wrote e1 e2 [frame_control (aPNG e1) i (seqNum e1)]"
    and s2: "seqNum e2 = seqNum e1 + 1" and i2: "idats e2 = idats e1"
    by (simp_all add: e2_def)
  have a: "aPNG e3 = aPNG e" "aPNG e1 = aPNG e" "seqNum e1 = seqNum e" "idats e1 = fd_idats fd"
    using w1 w2 by (simp_all add: wrote_def e1_def)
  have w0: "wrote e e1 []"
    using w1 by (simp add: wrote_def e1_def)
  from wrote_trans [OF w0 wrote_trans [OF w1 wrote_trans [OF w2 w3]]]
  show ?case
    using fd a s2 s3 i2 by (simp add: add.assoc)
qed

lemma frame_worker_index: "frame_worker enc i img = Inr fd \<Longrightarrow> index fd = i"
  by (auto simp: frame_worker_def split: option.splits sum.splits if_splits)

lemma collect_failed: "fst (collect enc imgs sched (Some x, m)) \<noteq> None"
  by (induction sched arbitrary: x m) (auto split: sum.splits)

lemma collect_ok:
  assumes "collect enc imgs sched (er, m) = (None, m')"
  shows "er = None \<and>
         (\<forall>i \<in> set sched. i < length imgs \<longrightarrow>
            (\<exists>fd. frame_worker enc i (imgs ! i) = Inr fd \<and> m' i = Some fd)) \<and>
         (\<forall>i. i \<notin> set sched \<longrightarrow> m' i = m i)"
  using assms
proof (induction sched arbitrary: er m)
  case Nil
  then show ?case by simp
next
  case (Cons i sched)
  show ?case
  proof (cases "i < length imgs")
    case False
    with Cons.prems have "collect enc imgs sched (er, m) = (None, m')" by simp
    from Cons.IH [OF this] False show ?thesis by auto
  next
    case True
    show ?thesis
    proof (cases "frame_worker enc i (imgs ! i)")
      case (Inl x)
      with Cons.prems True
      have "\<exists>y. collect enc imgs sched (Some y, m) = (None, m')"
        by (cases er) (auto split: if_splits)
      then obtain y where "collect enc imgs sched (Some y, m) = (None, m')" ..
      then have "fst (collect enc imgs sched (Some y, m)) = None" by simp
      with collect_failed show ?thesis by blast
    next
      case (Inr fd)
      then have ix: "index fd = i" by (rule frame_worker_index)
      with Cons.prems True Inr
      have c: "collect enc imgs sched (er, m(i \<mapsto> fd)) = (None, m')" by simp
      from Cons.IH [OF c]
      have er: "er = None"
        and A: "\<forall>j \<in> set sched. j < length imgs \<longrightarrow>
            (\<exists>fd. frame_worker enc j (imgs ! j) = Inr fd \<and> m' j = Some fd)"
        and B: "\<forall>j. j \<notin> set sched \<longrightarrow> m' j = (m(i \<mapsto> fd)) j"
        by simp_all
      have "\<exists>fd. frame_worker enc i (imgs ! i) = Inr fd \<and> m' i = Some fd"
      proof (cases "i \<in> set sched")
        case True
        with A \<open>i < length imgs\<close> show ?thesis by blast
      next
        case False
        with B have "m' i = Some fd" by simp
        with Inr show ?thesis by simp
      qed
      with er A B show ?thesis by auto
    qed
  qed
qed

section \<open>What a successful run has written\<close>

lemma later_frames_cong:
  "(\<And>i. i \<in> set is \<Longrightarrow> f i = g i) \<Longrightarrow> later_frames a f seq is = later_frames a g seq is"
  by (induction "is" arbitrary: seq) simp_all

lemma valid_schedule_mem: "valid_schedule n sched \<Longrightarrow> i < n \<Longrightarrow> i \<in> set sched"
  by (simp add: valid_schedule_def)

lemma EncodeAll_ok:
  assumes ok: "EncodeAll enc sched w a = (w', None)"
    and vs: "valid_schedule (length (Images a)) sched"
  shows "wdata w' = wdata w @ pngHeader @ wire (encoded enc a) \<and>
         (\<forall>c \<in> set (encoded enc a). length (fst c) = 4 \<and> length (snd c) < 2 ^ 32) \<and>
         (\<forall>i < length (Images a). \<exists>fd. frame_worker enc i (Images a ! i) = Inr fd) \<and>
         (\<exists>h p t. first_palette enc (Images a ! 0) = Inr (h, p, t)) \<and>
         length (Images a) \<noteq> 0 \<and> length (Images a) = length (Delays a) \<and>
         (\<forall>d. Disposals a = Some d \<longrightarrow> length (Images a) = length d) \<and>
         fullfillFrameRegionConstraints (Images a)"
proof -
  let ?N = "length (Images a)"
  from ok have v: "?N \<noteq> 0" "?N = length (Delays a)"
    "\<not> (case Disposals a of None \<Rightarrow> False | Some ds \<Rightarrow> ?N \<noteq> length ds)"
    "fullfillFrameRegionConstraints (Images a)"
    by (auto simp: EncodeAll_def split: if_splits)
  obtain w1 r1 where W: "Write w pngHeader = (w1, r1)" by (cases "Write w pngHeader")
  define e0 where "e0 = \<lparr>aPNG = a, writer = w1, seqNum = 0, ihdr = [], idats = [], err = r1\<rparr>"
  obtain h p t where fp: "first_palette enc (Images a ! 0) = Inr (h, p, t)"
    using ok v W
    by (cases "first_palette enc (Images a ! 0)") (auto simp: EncodeAll_def)
  obtain r m where C: "collect enc (Images a) sched (r1, Map.empty) = (r, m)"
    by (cases "collect enc (Images a) sched (r1, Map.empty)")
  have r: "r = None"
    using ok v W fp C by (auto simp: EncodeAll_def Let_def split: if_splits)
  from collect_ok [OF C [unfolded r]]
  have r1: "r1 = None"
    and fr: "\<forall>i \<in> set sched. i < ?N \<longrightarrow>
               (\<exists>fd. frame_worker enc i (Images a ! i) = Inr fd \<and> m i = Some fd)"
    by simp_all
  have fr': "\<exists>fd. frame_worker enc i (Images a ! i) = Inr fd \<and> m i = Some fd" if "i < ?N" for i
    using fr valid_schedule_mem [OF vs that] that by blast
  from fr' [of 0] v(1) obtain fd where fd: "frame_worker enc 0 (Images a ! 0) = Inr fd" "m 0 = Some fd"
    by auto
  define e1 where "e1 = e0\<lparr>err := None, ihdr := fd_ihdr fd, idats := fd_idats fd\<rparr>"
  define e2 where "e2 = writeIHDR e1"
  define e3 where "e3 = write_global_palette e2 h p t"
  define e4 where "e4 = writeacTL e3"
  define e5 where "e5 = writefcTL e4 0"
  define e6 where "e6 = writeIDATs e5"
  have unf: "EncodeAll enc sched w a =
      (case EncodeAll_frames m [1..<?N] e6 of
         Inl (e, er) \<Rightarrow> (writer e, Some er)
       | Inr e \<Rightarrow> (let e = writeIEND e in (writer e, err e)))"
    using v W fp C r fd
    by (simp add: EncodeAll_def Let_def e0_def e1_def e2_def e3_def e4_def e5_def e6_def)
  from ok unf obtain e7 where e7: "EncodeAll_frames m [1..<?N] e6 = Inr e7"
    by (cases "EncodeAll_frames m [1..<?N] e6") auto
  define e8 where "e8 = writeIEND e7"
  from ok unf e7 have fin: "writer e8 = w'" "err e8 = None"
    by (simp_all add: e8_def Let_def)
  have ok8: "err (writeChunk e7 [] ''IEND'') = None"
    using fin by (simp add: e8_def writeIEND_def)
  from writeChunk_wrote [OF ok8] have w8: "wrote e7 e8 [(tag ''IEND'', [])]"
    by (simp add: e8_def writeIEND_def)
  then have "err e7 = None" by (rule wrote_err)
  from EncodeAll_frames_ok [OF e7 this]
  have w7: "wrote e6 e7 (later_frames (aPNG e6) (\<lambda>i. fd_idats (the (m i))) (seqNum e6) [1..<?N])" .
  then have "err e6 = None" by (rule wrote_err)
  then have ok6: "err (foldl (\<lambda>e id'. writeChunk e id' ''IDAT'') e5 (idats e5)) = None"
    by (simp add: e6_def writeIDATs_def)
  from writeIDATs_ok [OF ok6]
  have w6: "wrote e5 e6 (map (Pair (tag ''IDAT'')) (idats e5))" and s6: "seqNum e6 = seqNum e5"
    by (simp_all add: e6_def writeIDATs_def)
  then have "err e5 = None" by (simp add: wrote_def)
  then have ok5: "err (writefcTL e4 0) = None" by (simp add: e5_def)
  from writefcTL_ok [OF ok5]
  have w5: "wrote e4 e5 [frame_control (aPNG e4) 0 (seqNum e4)]"
    and s5: "seqNum e5 = seqNum e4 + 1" and i5: "idats e5 = idats e4"
    by (simp_all add: e5_def)
  then have "err e4 = None" by (simp add: wrote_def)
  then have ok4: "err (writeChunk e3 (writeUint32 (of_nat (length (Images (aPNG e3)))) @
                         writeUint32 (LoopCount (aPNG e3))) ''acTL'') = None"
    by (simp add: e4_def writeacTL_def)
  from writeChunk_wrote [OF ok4]
  have w4: "wrote e3 e4 [buildAnimationControl (of_nat (length (Images (aPNG e3)))) (LoopCount (aPNG e3))]"
    by (simp add: e4_def writeacTL_def buildAnimationControl_def)
  have s4: "seqNum e4 = seqNum e3" "idats e4 = idats e3"
    by (simp_all add: e4_def writeacTL_def writeChunk_fields)
  from w4 have "err e3 = None" by (rule wrote_err)
  then have ok3: "err (write_global_palette e2 h p t) = None" by (simp add: e3_def)
  from write_global_palette_ok [OF ok3]
  have w3: "wrote e2 e3 (palette_chunks h p t)"
    and s3: "seqNum e3 = seqNum e2" "idats e3 = idats e2"
    by (simp_all add: e3_def)
  from w3 have "err e2 = None" by (rule wrote_err)
  then have ok2: "err (writeChunk e1 (ihdr e1) ''IHDR'') = None"
    by (simp add: e2_def writeIHDR_def)
  from writeChunk_wrote [OF ok2]
  have w2: "wrote e1 e2 [(tag ''IHDR'', ihdr e1)]"
    by (simp add: e2_def writeIHDR_def)
  have s2: "seqNum e2 = seqNum e1" "idats e2 = idats e1"
    by (simp_all add: e2_def writeIHDR_def writeChunk_fields)
  have e1: "aPNG e1 = a" "seqNum e1 = 0" "idats e1 = fd_idats fd" "ihdr e1 = fd_ihdr fd"
    "writer e1 = w1"
    by (simp_all add: e1_def e0_def)
  have ap: "aPNG e3 = a" "aPNG e4 = a" "aPNG e6 = a"
    using w2 w3 w4 w5 w6 e1(1) by (simp_all add: wrote_def)
  have seq6: "seqNum e6 = 1"
    using s6 s5 s4 s3 s2 e1 by simp
  have id5: "idats e5 = fd_idats fd"
    using i5 s4 s3 s2 e1 by simp
  have fi: "frame_idats enc a i = fd_idats (the (m i))" if "i < ?N" for i
    using fr' [OF that] by (auto simp: frame_idats_def)
  have lf: "later_frames a (\<lambda>i. fd_idats (the (m i))) 1 [1..<?N] =
            later_frames a (frame_idats enc a) 1 [1..<?N]"
    by (rule later_frames_cong) (simp add: fi)
  have ih: "frame_ihdr enc a 0 = fd_ihdr fd" and id0: "frame_idats enc a 0 = fd_idats fd"
    using fd by (simp_all add: frame_ihdr_def frame_idats_def)
  have gp: "global_palette enc a = palette_chunks h p t"
    using fp by (simp add: global_palette_def)
  from wrote_trans [OF w2 wrote_trans [OF w3 wrote_trans [OF w4 wrote_trans [OF w5
        wrote_trans [OF w6 wrote_trans [OF w7 w8]]]]]]
  have all: "wrote e1 e8 (encoded enc a)"
    using ap seq6 id5 lf ih id0 gp e1 s4 s3 s2
    by (simp add: encoded_def container_def)
  have "wdata w1 = wdata w @ pngHeader"
    using Write_None [OF W r1] .
  with all fin e1 have "wdata w' = wdata w @ pngHeader @ wire (encoded enc a)"
    by (simp add: wrote_def)
  moreover from all have "\<forall>c \<in> set (encoded enc a). length (fst c) = 4 \<and> length (snd c) < 2 ^ 32"
    by (simp add: wrote_def)
  moreover have "\<forall>i < ?N. \<exists>fd. frame_worker enc i (Images a ! i) = Inr fd"
    using fr' by blast
  moreover have "\<forall>d. Disposals a = Some d \<longrightarrow> ?N = length d"
    using v(3) by auto
  ultimately show ?thesis using v fp by blast
qed

lemma read_chunks_step:
  assumes t: "length t = 4" and p: "length p < 2 ^ 32"
  shows "read_chunks (chunk_bytes (t, p) @ rest) = map_option ((#) (t, p)) (read_chunks rest)"
proof -
  let ?bs = "chunk_bytes (t, p) @ rest"
  have t4: "take 4 ?bs = writeUint32 (of_nat (length p))"
    by (simp add: chunk_bytes_def)
  have n: "unat (BigEndian_Uint32 (take 4 ?bs)) = length p"
    using p by (simp only: t4) (simp add: BigEndian_writeUint32 unat_of_nat)
  have len: "length ?bs = length p + 12 + length rest"
    using t by (simp add: chunk_bytes_def)
  then have "length ?bs \<noteq> 0" by linarith
  then have f0: "?bs \<noteq> []" by (simp only: length_0_conv not_False_eq_True)
  have f1: "\<not> length ?bs < 12" "\<not> length ?bs < length p + 12"
    using len by linarith+
  have f2: "take 4 (drop 4 ?bs) = t" "take (length p) (drop 8 ?bs) = p"
    using t by (simp_all add: chunk_bytes_def)
  have f3: "take 4 (drop (length p + 8) ?bs) = writeUint32 (ChecksumIEEE (t @ p))"
    using t by (simp add: chunk_bytes_def)
  have f4: "drop (length p + 12) ?bs = rest"
    using t by (simp add: chunk_bytes_def)
  show ?thesis
    by (subst read_chunks.simps) (simp only: n f0 f1 f2 f3 f4 Let_def if_False not_False_eq_True simp_thms)
qed

lemma read_chunks_wire:
  assumes "\<forall>c \<in> set cs. length (fst c) = 4 \<and> length (snd c) < 2 ^ 32"
  shows "read_chunks (wire cs) = Some cs"
  using assms
proof (induction cs)
  case Nil
  show ?case by (subst read_chunks.simps) simp
next
  case (Cons c cs)
  obtain t p where c: "c = (t, p)" by (cases c)
  with Cons.prems have "length t = 4" "length p < 2 ^ 32" by simp_all
  from read_chunks_step [OF this, of "wire cs"] Cons show ?case
    by (simp add: c)
qed

lemma EncodeAll_reparse:
  assumes ok: "EncodeAll enc sched w a = (w', None)"
    and vs: "valid_schedule (length (Images a)) sched"
  shows "read_chunks (drop (length (wdata w) + length pngHeader) (wdata w')) = Some (encoded enc a)"
    and "take (length pngHeader) (drop (length (wdata w)) (wdata w')) = pngHeader"
    and "take (length (wdata w)) (wdata w') = wdata w"
proof -
  from EncodeAll_ok [OF ok vs]
  have out: "wdata w' = wdata w @ pngHeader @ wire (encoded enc a)"
    and len: "\<forall>c \<in> set (encoded enc a). length (fst c) = 4 \<and> length (snd c) < 2 ^ 32"
    by simp_all
  show "read_chunks (drop (length (wdata w) + length pngHeader) (wdata w')) = Some (encoded enc a)"
    using read_chunks_wire [OF len] by (simp add: out)
  show "take (length pngHeader) (drop (length (wdata w)) (wdata w')) = pngHeader"
    by (simp add: out)
  show "take (length (wdata w)) (wdata w') = wdata w"
    by (simp add: out)
qed

section \<open>A run on a writer that never fails\<close>

lemma writeChunk_buffer:
  assumes "err e = None" "wscript (writer e) = []" "length b < 2 ^ 32" "length name = 4"
  shows "writeChunk e b name =
           e\<lparr>writer := (writer e)\<lparr>wdata := wdata (writer e) @ chunk_bytes (tag name, b)\<rparr>\<rparr>"
  using assms
  by (simp add: writeChunk_def Write_def Let_def chunk_bytes_def tag_def crc_streamed)

lemma writeChunk_steady:
  assumes "steady e" "length b < 2 ^ 32" "length name = 4"
  shows "steady (writeChunk e b name)"
  using assms by (simp add: steady_def writeChunk_buffer)

lemma region_loop_nonnil:
  "fullfillFrameRegionConstraints_loop r imgs \<Longrightarrow> None \<notin> set imgs"
  by (induction r imgs rule: fullfillFrameRegionConstraints_loop.induct)
    (auto simp: Let_def split: if_splits)

lemma region_nonnil:
  assumes "fullfillFrameRegionConstraints imgs"
  shows "None \<notin> set imgs"
proof (cases imgs)
  case Nil
  with assms show ?thesis by (simp add: fullfillFrameRegionConstraints_def)
next
  case (Cons x rest)
  with assms obtain im0 where x: "x = Some im0"
    by (cases x) (auto simp: fullfillFrameRegionConstraints_def)
  with assms Cons have "fullfillFrameRegionConstraints_loop (Bounds im0) rest"
    by (auto simp: fullfillFrameRegionConstraints_def Let_def split: if_splits)
  from region_loop_nonnil [OF this] x Cons show ?thesis by simp
qed

lemma writefcTL_steady:
  assumes st: "steady e" and i: "i < length (Images (aPNG e))"
    and img: "Images (aPNG e) ! i \<noteq> None"
    and d: "i < length (Delays (aPNG e))"
    and ds: "\<forall>x. Disposals (aPNG e) = Some x \<longrightarrow> i < length x"
  shows "steady (writefcTL e i)"
proof -
  from img obtain im where im: "Images (aPNG e) ! i = Some im" by auto
  have ds': "\<not> (case Disposals (aPNG e) of None \<Rightarrow> False | Some ds \<Rightarrow> \<not> i < length ds)"
    using ds by (auto split: option.splits)
  define p where "p = snd (frame_control (aPNG e) i (seqNum e))"
  have unf: "writefcTL e i = (writeChunk e p ''fcTL'')\<lparr>seqNum := seqNum (writeChunk e p ''fcTL'') + 1\<rparr>"
    using i im d ds'
    by (simp add: writefcTL_def Let_def p_def frame_control_def buildFrameControl_def)
  have "length p = 26"
    by (simp add: p_def frame_control_def buildFrameControl_def)
  then have "steady (writeChunk e p ''fcTL'')"
    using st by (intro writeChunk_steady) simp_all
  then show ?thesis by (simp add: unf steady_def)
qed

lemma writeIDATs_steady:
  assumes "steady e" "\<forall>d \<in> set ds. length d < 2 ^ 32"
  shows "steady (foldl (\<lambda>e id'. writeChunk e id' ''IDAT'') e ds)"
  using assms
  by (induction ds arbitrary: e) (simp_all add: writeChunk_steady)

lemma writefdAT_steady:
  assumes "steady e" "length d + 4 < 2 ^ 32"
  shows "steady (writefdAT e d)"
proof -
  have "steady (writeChunk e (writeUint32 (seqNum e) @ d) ''fdAT'')"
    using assms by (intro writeChunk_steady) simp_all
  then show ?thesis by (simp add: writefdAT_def Let_def steady_def)
qed

lemma writefdAT_aPNG: "aPNG (writefdAT e d) = aPNG e"
  by (simp add: writefdAT_def Let_def writeChunk_fields)

lemma writefdATs_steady:
  assumes "steady e" "\<forall>d \<in> set ds. length d + 4 < 2 ^ 32"
  shows "steady (foldl writefdAT e ds) \<and> aPNG (foldl writefdAT e ds) = aPNG e"
  using assms
  by (induction ds arbitrary: e) (simp_all add: writefdAT_steady writefdAT_aPNG)

lemma writefcTL_fields:
  "aPNG (writefcTL e i) = aPNG e" "idats (writefcTL e i) = idats e"
  by (simp_all add: writefcTL_def Let_def writeChunk_fields split: option.splits)

lemma EncodeAll_frames_steady:
  assumes "steady e"
    and "\<forall>i \<in> set is. i < length (Images (aPNG e)) \<and> i < length (Delays (aPNG e)) \<and>
           Images (aPNG e) ! i \<noteq> None \<and>
           (\<forall>x. Disposals (aPNG e) = Some x \<longrightarrow> i < length x) \<and>
           (\<exists>fd. m i = Some fd \<and> (\<forall>d \<in> set (fd_idats fd). length d + 4 < 2 ^ 32))"
  shows "\<exists>e'. EncodeAll_frames m is e = Inr e' \<and> steady e'"
  using assms
proof (induction "is" arbitrary: e)
  case Nil
  then show ?case by simp
next
  case (Cons i rest)
  from Cons.prems(2) obtain fd where fd: "m i = Some fd"
    and sz: "\<forall>d \<in> set (fd_idats fd). length d + 4 < 2 ^ 32"
    by auto
  define e1 where "e1 = e\<lparr>ihdr := fd_ihdr fd, idats := fd_idats fd\<rparr>"
  have st1: "steady e1" and a1: "aPNG e1 = aPNG e"
    using Cons.prems(1) by (simp_all add: e1_def steady_def)
  have st2: "steady (writefcTL e1 i)"
    using Cons.prems(2) st1 a1 by (intro writefcTL_steady) simp_all
  have id2: "idats (writefcTL e1 i) = fd_idats fd"
    by (simp add: writefcTL_fields e1_def)
  from writefdATs_steady [OF st2, of "fd_idats fd"] sz
  have st3: "steady (writefdATs (writefcTL e1 i))"
    and a3: "aPNG (writefdATs (writefcTL e1 i)) = aPNG e"
    by (simp_all add: writefdATs_def id2 writefcTL_fields(1) a1)
  have "\<exists>e'. EncodeAll_frames m rest (writefdATs (writefcTL e1 i)) = Inr e' \<and> steady e'"
    using Cons.prems(2) by (intro Cons.IH [OF st3]) (simp add: a3)
  then show ?case using fd by (simp add: e1_def Let_def)
qed

lemma collect_steady:
  assumes "\<forall>i \<in> set sched. i < length imgs \<longrightarrow> (\<exists>fd. frame_worker enc i (imgs ! i) = Inr fd)"
  shows "fst (collect enc imgs sched (None, m)) = None"
  using assms
proof (induction sched arbitrary: m)
  case Nil
  then show ?case by simp
next
  case (Cons i sched)
  then show ?case by (cases "i < length imgs") auto
qed

lemma foldl_writeChunk_aPNG:
  "aPNG (foldl (\<lambda>e id'. writeChunk e id' name) e ds) = aPNG e"
  by (induction ds arbitrary: e) (simp_all add: writeChunk_fields)

lemma write_global_palette_steady:
  assumes st: "steady e" and p: "framed p" and t: "framed t"
  shows "steady (write_global_palette e h p t)"
proof (cases "h \<and> p \<noteq> None")
  case False
  with st show ?thesis by (auto simp: write_global_palette_def)
next
  case True
  then obtain g where h: h and g: "p = Some g" by auto
  from p g obtain pl where pl: "framed_payload g = Some pl" "length pl < 2 ^ 32"
    by (auto simp: framed_def split: option.splits)
  have st1: "steady (writeChunk e pl ''PLTE'')"
    using st pl by (simp add: writeChunk_steady)
  show ?thesis
  proof (cases t)
    case None
    with h g pl st1 show ?thesis by (simp add: write_global_palette_def)
  next
    case (Some g')
    with t obtain tr where tr: "framed_payload g' = Some tr" "length tr < 2 ^ 32"
      by (auto simp: framed_def split: option.splits)
    have "steady (writeChunk (writeChunk e pl ''PLTE'') tr ''tRNS'')"
      using st1 tr by (simp add: writeChunk_steady)
    with h g pl Some tr show ?thesis by (simp add: write_global_palette_def)
  qed
qed

lemma write_global_palette_fields:
  "aPNG (write_global_palette e h p t) = aPNG e"
  "idats (write_global_palette e h p t) = idats e"
  by (simp_all add: write_global_palette_def Let_def writeChunk_fields split: option.splits)

lemma EncodeAll_succeeds:
  assumes n: "Images a \<noteq> []" and dl: "length (Images a) = length (Delays a)"
    and dp: "\<forall>x. Disposals a = Some x \<longrightarrow> length (Images a) = length x"
    and rg: "fullfillFrameRegionConstraints (Images a)"
    and w: "wscript w = []"
    and vs: "valid_schedule (length (Images a)) sched"
    and fw: "\<forall>i < length (Images a). \<exists>fd. frame_worker enc i (Images a ! i) = Inr fd"
    and fp: "first_palette enc (Images a ! 0) = Inr (h, p, t)" "framed p" "framed t"
    and s0: "length (frame_ihdr enc a 0) < 2 ^ 32"
      "\<forall>d \<in> set (frame_idats enc a 0). length d < 2 ^ 32"
    and s1: "\<forall>i. 1 \<le> i \<and> i < length (Images a) \<longrightarrow>
               (\<forall>d \<in> set (frame_idats enc a i). length d + 4 < 2 ^ 32)"
  shows "snd (EncodeAll enc sched w a) = None"
proof -
  let ?N = "length (Images a)"
  have N0: "0 < ?N" using n by simp
  have N0': "?N \<noteq> 0" using n by simp
  have dp': "\<not> (case Disposals a of None \<Rightarrow> False | Some ds \<Rightarrow> ?N \<noteq> length ds)"
    using dp by (auto split: option.splits)
  have W: "Write w pngHeader = (w\<lparr>wdata := wdata w @ pngHeader\<rparr>, None)"
    using w by (simp add: Write_def)
  define e0 where "e0 = \<lparr>aPNG = a, writer = w\<lparr>wdata := wdata w @ pngHeader\<rparr>, seqNum = 0,
    ihdr = [], idats = [], err = None\<rparr>"
  obtain r m where C: "collect enc (Images a) sched (None, Map.empty) = (r, m)"
    by (cases "collect enc (Images a) sched (None, Map.empty)")
  have "fst (collect enc (Images a) sched (None, Map.empty)) = None"
    using fw by (intro collect_steady) simp
  with C have r: "r = None" by simp
  from collect_ok [OF C [unfolded r]]
  have fr: "\<forall>i \<in> set sched. i < ?N \<longrightarrow>
               (\<exists>fd. frame_worker enc i (Images a ! i) = Inr fd \<and> m i = Some fd)"
    by simp
  have fr': "\<exists>fd. frame_worker enc i (Images a ! i) = Inr fd \<and> m i = Some fd" if "i < ?N" for i
    using fr valid_schedule_mem [OF vs that] that by blast
  from fr' [OF N0] obtain fd where fd: "frame_worker enc 0 (Images a ! 0) = Inr fd" "m 0 = Some fd"
    by auto
  have fd0: "fd_ihdr fd = frame_ihdr enc a 0" "fd_idats fd = frame_idats enc a 0"
    using fd by (simp_all add: frame_ihdr_def frame_idats_def)
  define e1 where "e1 = e0\<lparr>ihdr := fd_ihdr fd, idats := fd_idats fd\<rparr>"
  define e2 where "e2 = writeIHDR e1"
  define e3 where "e3 = write_global_palette e2 h p t"
  define e4 where "e4 = writeacTL e3"
  define e5 where "e5 = writefcTL e4 0"
  define e6 where "e6 = writeIDATs e5"
  have unf: "EncodeAll enc sched w a =
      (case EncodeAll_frames m [1..<?N] e6 of
         Inl (e, er) \<Rightarrow> (writer e, Some er)
       | Inr e \<Rightarrow> (let e = writeIEND e in (writer e, err e)))"
    using N0' dl dp' rg W fp(1) C r fd
    by (simp add: EncodeAll_def Let_def e0_def e1_def e2_def e3_def e4_def e5_def e6_def)
  have nn: "Images a ! i \<noteq> None" if "i < ?N" for i
    using region_nonnil [OF rg] that by (metis nth_mem)
  have st1: "steady e1" and a1: "aPNG e1 = a" "idats e1 = fd_idats fd" "ihdr e1 = fd_ihdr fd"
    using w by (simp_all add: e1_def e0_def steady_def)
  have st2: "steady e2"
    unfolding e2_def writeIHDR_def using st1 s0(1) by (simp add: writeChunk_steady a1 fd0)
  have a2: "aPNG e2 = a" "idats e2 = fd_idats fd"
    by (simp_all add: e2_def writeIHDR_def writeChunk_fields a1)
  have st3: "steady e3"
    unfolding e3_def using st2 fp(2,3) by (rule write_global_palette_steady)
  have a3: "aPNG e3 = a" "idats e3 = fd_idats fd"
    by (simp_all add: e3_def write_global_palette_fields a2)
  have st4: "steady e4"
    unfolding e4_def writeacTL_def using st3 by (simp add: writeChunk_steady)
  have a4: "aPNG e4 = a" "idats e4 = fd_idats fd"
    by (simp_all add: e4_def writeacTL_def writeChunk_fields a3)
  have st5: "steady e5"
    unfolding e5_def using st4 N0 nn [OF N0] dl dp by (intro writefcTL_steady) (auto simp: a4)
  have a5: "aPNG e5 = a" "idats e5 = fd_idats fd"
    by (simp_all add: e5_def writefcTL_fields a4)
  have st6: "steady e6"
    unfolding e6_def writeIDATs_def a5 using st5 s0(2) by (intro writeIDATs_steady) (simp_all add: fd0)
  have a6: "aPNG e6 = a"
    by (simp add: e6_def writeIDATs_def foldl_writeChunk_aPNG a5)
  have "\<exists>e'. EncodeAll_frames m [1..<?N] e6 = Inr e' \<and> steady e'"
  proof (rule EncodeAll_frames_steady [OF st6], rule ballI)
    fix i assume "i \<in> set [1..<?N]"
    then have i: "1 \<le> i" "i < ?N" by simp_all
    from fr' [OF i(2)] obtain fdi where fdi: "frame_worker enc i (Images a ! i) = Inr fdi" "m i = Some fdi"
      by auto
    then have "fd_idats fdi = frame_idats enc a i" by (simp add: frame_idats_def)
    with s1 i have "\<forall>d \<in> set (fd_idats fdi). length d + 4 < 2 ^ 32" by simp
    with fdi i nn [OF i(2)] dl dp
    show "i < length (Images (aPNG e6)) \<and> i < length (Delays (aPNG e6)) \<and>
           Images (aPNG e6) ! i \<noteq> None \<and>
           (\<forall>x. Disposals (aPNG e6) = Some x \<longrightarrow> i < length x) \<and>
           (\<exists>fd. m i = Some fd \<and> (\<forall>d \<in> set (fd_idats fd). length d + 4 < 2 ^ 32))"
      by (auto simp: a6)
  qed
  then obtain e7 where e7: "EncodeAll_frames m [1..<?N] e6 = Inr e7" "steady e7" by blast
  have "steady (writeIEND e7)"
    unfolding writeIEND_def using e7(2) by (simp add: writeChunk_steady)
  moreover have "EncodeAll enc sched w a = (writer (writeIEND e7), err (writeIEND e7))"
    by (simp only: unf e7(1) sum.case Let_def)
  ultimately show ?thesis
    by (simp add: steady_def)
qed

section \<open>The container frame by frame\<close>

lemma frame_data_enumerate:
  "frame_data (s + of_nat n) ds = map (\<lambda>(k, d). buildFrameData d (s + of_nat k)) (enumerate n ds)"
proof (induction ds arbitrary: n)
  case Nil
  then show ?case by simp
next
  case (Cons d ds)
  from Cons.IH [of "Suc n"] show ?case by (simp add: ac_simps)
qed

lemma frame_seq_Suc:
  "0 < i \<Longrightarrow> frame_seq ds (Suc i) = frame_seq ds i + 1 + of_nat (length (ds i))"
  by (cases i) simp_all

lemma later_frames_groups:
  assumes "0 < i"
  shows "later_frames a ds (frame_seq ds i) [i..<i + n] =
         concat (map (frame_group a ds) [i..<i + n])"
  using assms
proof (induction n arbitrary: i)
  case 0
  then show ?case by simp
next
  case (Suc n)
  define L where "L = [Suc i..<Suc i + n]"
  have u: "[i..<i + Suc n] = i # L"
    by (simp add: upt_conv_Cons L_def)
  have fd: "frame_data (frame_seq ds i + 1) (ds i) =
      map (\<lambda>(k, d). buildFrameData d (frame_seq ds i + 1 + of_nat k)) (enumerate 0 (ds i))"
    using frame_data_enumerate [of "frame_seq ds i + 1" 0 "ds i"] by simp
  from Suc.IH [of "Suc i"]
  have IH: "later_frames a ds (frame_seq ds (Suc i)) L = concat (map (frame_group a ds) L)"
    by (simp add: L_def)
  have g: "frame_group a ds i =
      frame_control a i (frame_seq ds i) # frame_data (frame_seq ds i + 1) (ds i)"
    using Suc.prems by (simp add: frame_group_def fd)
  show ?case
    unfolding u by (simp add: IH [symmetric] frame_seq_Suc [OF Suc.prems] g)
qed

lemma container_by_frame:
  assumes "Images a \<noteq> []"
  shows "container a hdr pal ds =
           (tag ''IHDR'', hdr) # pal @
           buildAnimationControl (of_nat (length (Images a))) (LoopCount a) #
           concat (map (frame_group a ds) [0..<length (Images a)]) @ [(tag ''IEND'', [])]"
proof -
  obtain n where n: "length (Images a) = Suc n"
    using assms by (cases "Images a") auto
  define L where "L = [1..<Suc n]"
  have "later_frames a ds (frame_seq ds 1) [1..<1 + n] = concat (map (frame_group a ds) [1..<1 + n])"
    by (rule later_frames_groups) simp
  then have lf: "later_frames a ds 1 L = concat (map (frame_group a ds) L)"
    by (simp add: L_def)
  have u: "[0..<Suc n] = 0 # L"
    by (simp add: upt_conv_Cons L_def)
  have g: "frame_group a ds 0 = frame_control a 0 0 # map (Pair (tag ''IDAT'')) (ds 0)"
    by (simp add: frame_group_def)
  show ?thesis
    unfolding container_def n u L_def [symmetric] by (simp add: lf g)
qed

lemma numbered_Nil [simp]: "numbered s []"
  by (simp add: numbered_def)

lemma numbered_Cons: "numbered s (c # cs) \<longleftrightarrow> seq_no c = s \<and> numbered (s + 1) cs"
proof -
  have "map (\<lambda>k. s + of_nat k) [0..<Suc (length cs)] =
        s # map (\<lambda>k. s + 1 + of_nat k) [0..<length cs]"
    by (simp only: map_upt_Suc) (simp add: ac_simps)
  then show ?thesis by (simp add: numbered_def)
qed

lemma numbered_append:
  "numbered s (cs @ ds) \<longleftrightarrow> numbered s cs \<and> numbered (s + of_nat (length cs)) ds"
  by (induction cs arbitrary: s) (simp_all add: numbered_Cons ac_simps)

lemma seq_no_frame_control [simp]: "seq_no (frame_control a i s) = s"
  by (simp add: seq_no_def frame_control_def buildFrameControl_def BigEndian_writeUint32)

lemma seq_no_buildFrameData [simp]: "seq_no (buildFrameData d s) = s"
  by (simp add: seq_no_def buildFrameData_def BigEndian_writeUint32)

lemma fst_frame_control [simp]: "fst (frame_control a i s) = tag ''fcTL''"
  by (simp add: frame_control_def buildFrameControl_def)

lemma length_frame_data [simp]: "length (frame_data s ds) = length ds"
  by (induction ds arbitrary: s) simp_all

lemma numbered_frame_data: "numbered s (frame_data s ds)"
  by (induction ds arbitrary: s) (simp_all add: numbered_Cons)

lemma sequenced_frame_data: "\<forall>c \<in> set (frame_data s ds). sequenced c"
  by (induction ds arbitrary: s) (simp_all add: sequenced_def buildFrameData_def)

lemma numbered_later_frames: "numbered s (later_frames a ds s is)"
  by (induction "is" arbitrary: s)
    (simp_all add: numbered_Cons numbered_append numbered_frame_data)

lemma sequenced_later_frames: "\<forall>c \<in> set (later_frames a ds s is). sequenced c"
proof (induction "is" arbitrary: s)
  case Nil
  then show ?case by simp
next
  case (Cons i rest)
  then show ?case
    using sequenced_frame_data [of "s + 1" "ds i"] by (auto simp: sequenced_def)
qed

lemma tags_distinct [simp]:
  "tag ''IHDR'' \<noteq> tag ''fcTL''" "tag ''IHDR'' \<noteq> tag ''fdAT''"
  "tag ''PLTE'' \<noteq> tag ''fcTL''" "tag ''PLTE'' \<noteq> tag ''fdAT''"
  "tag ''tRNS'' \<noteq> tag ''fcTL''" "tag ''tRNS'' \<noteq> tag ''fdAT''"
  "tag ''acTL'' \<noteq> tag ''fcTL''" "tag ''acTL'' \<noteq> tag ''fdAT''"
  "tag ''IDAT'' \<noteq> tag ''fcTL''" "tag ''IDAT'' \<noteq> tag ''fdAT''"
  "tag ''IEND'' \<noteq> tag ''fcTL''" "tag ''IEND'' \<noteq> tag ''fdAT''"
  "tag ''fdAT'' \<noteq> tag ''fcTL''" "tag ''fcTL'' \<noteq> tag ''fdAT''"
  "tag ''IDAT'' \<noteq> tag ''PLTE''" "tag ''IDAT'' \<noteq> tag ''tRNS''"
  "tag ''fcTL'' \<noteq> tag ''PLTE''" "tag ''fcTL'' \<noteq> tag ''tRNS''"
  "tag ''fdAT'' \<noteq> tag ''PLTE''" "tag ''fdAT'' \<noteq> tag ''tRNS''"
  "tag ''acTL'' \<noteq> tag ''PLTE''" "tag ''acTL'' \<noteq> tag ''tRNS''"
  "tag ''IEND'' \<noteq> tag ''PLTE''" "tag ''IEND'' \<noteq> tag ''tRNS''"
  "tag ''IHDR'' \<noteq> tag ''PLTE''" "tag ''IHDR'' \<noteq> tag ''tRNS''"
  "tag ''PLTE'' \<noteq> tag ''tRNS''" "tag ''tRNS'' \<noteq> tag ''PLTE''"
  by (simp_all add: tag_def)

lemma palette_chunks_forms:
  "palette_chunks h p t = [] \<or>
   (\<exists>x. palette_chunks h p t = [(tag ''PLTE'', x)]) \<or>
   (\<exists>x y. palette_chunks h p t = [(tag ''PLTE'', x), (tag ''tRNS'', y)])"
  by (auto simp: palette_chunks_def split: option.splits)

lemma global_palette_forms:
  "global_palette enc a = [] \<or>
   (\<exists>x. global_palette enc a = [(tag ''PLTE'', x)]) \<or>
   (\<exists>x y. global_palette enc a = [(tag ''PLTE'', x), (tag ''tRNS'', y)])"
  using palette_chunks_forms
  by (auto simp: global_palette_def split: sum.splits prod.splits)

lemma filter_sequenced_palette [simp]: "filter sequenced (global_palette enc a) = []"
  using global_palette_forms [of enc a] by (auto simp: sequenced_def)

lemma filter_sequenced_encoded:
  "filter sequenced (encoded enc a) =
     frame_control a 0 0 # later_frames a (frame_idats enc a) 1 [1..<length (Images a)]"
proof -
  have 1: "filter sequenced (map (Pair (tag ''IDAT'')) xs) = []" for xs
    by (induction xs) (simp_all add: sequenced_def)
  have 2: "filter sequenced (later_frames a ds s is) = later_frames a ds s is" for ds s "is"
    using sequenced_later_frames [of a ds s "is"] by (simp add: filter_id_conv)
  show ?thesis
    by (simp add: encoded_def container_def 1 2 buildAnimationControl_def)
      (simp add: sequenced_def)
qed

lemma EncodeAll_by_frame:
  assumes ok: "EncodeAll enc sched w a = (w', None)"
    and vs: "valid_schedule (length (Images a)) sched"
  shows "read_chunks (drop (length (wdata w) + length pngHeader) (wdata w')) =
           Some ((tag ''IHDR'', frame_ihdr enc a 0) # global_palette enc a @
                 buildAnimationControl (of_nat (length (Images a))) (LoopCount a) #
                 concat (map (frame_group a (frame_idats enc a)) [0..<length (Images a)]) @
                 [(tag ''IEND'', [])])"
proof -
  from EncodeAll_ok [OF ok vs] have "Images a \<noteq> []" by auto
  from container_by_frame [OF this] EncodeAll_reparse(1) [OF ok vs]
  show ?thesis by (simp add: encoded_def)
qed

section \<open>The sample inputs run\<close>

lemmas parse_defs = fetchPNGChunk_def fetchPaletteChunk_def fetchPNGChunk_loop.simps
  fetchPaletteChunk_loop.simps pngHeader_def tag_def Buffer_Next_def
  parsePNGChunk_def parsePNGChunkWithPalette_def skip_crc_def parseIHDR_def parsePLTE_def parsetRNS_def
  parseIDAT_def ReadFull_def Let_def BigEndian_Uint32_def writeUint32_def

lemma demo_image_sel [simp]:
  "isPaletted (demo_image x0 y0 x1 y1 p px) = p"
  "Pix (demo_image x0 y0 x1 y1 p px) = px"
  by (simp_all add: demo_image_def)

lemma demo_worker_plain:
  "frame_worker demo_Encode i (Some (demo_image x0 y0 x1 y1 False [u, v])) =
     Inr \<lparr>index = i, fd_ihdr = [8], fd_idats = [[u, v]], fd_isPaletted = False\<rparr>"
  "frame_worker demo_Encode i (Some (demo_image x0 y0 x1 y1 False [u])) =
     Inr \<lparr>index = i, fd_ihdr = [8], fd_idats = [[u]], fd_isPaletted = False\<rparr>"
  by (simp_all add: frame_worker_def demo_Encode_def parse_defs)

lemma demo_worker_paletted:
  "frame_worker demo_Encode i (Some (demo_image x0 y0 x1 y1 True [u, v])) =
     Inr \<lparr>index = i, fd_ihdr = [8], fd_idats = [[u, v]], fd_isPaletted = True\<rparr>"
  "frame_worker demo_Encode i (Some (demo_image x0 y0 x1 y1 True [u])) =
     Inr \<lparr>index = i, fd_ihdr = [8], fd_idats = [[u]], fd_isPaletted = True\<rparr>"
  by (simp_all add: frame_worker_def encodePalettedImage_def demo_Encode_def parse_defs)

lemma demo_first_palette:
  "first_palette demo_Encode (Some (demo_image x0 y0 x1 y1 False px)) = Inr (False, None, None)"
  "first_palette demo_Encode (Some (demo_image x0 y0 x1 y1 True [u, v])) =
     Inr (True, Some ([0, 0, 0, 3] @ tag ''PLTE'' @ [1, 2, 3]), Some ([0, 0, 0, 1] @ tag ''tRNS'' @ [9]))"
  by (simp_all add: first_palette_def demo_Encode_def parse_defs)

lemma demo_framed:
  "framed None"
  "framed (Some ([0, 0, 0, 3] @ tag ''PLTE'' @ [1, 2, 3]))"
  "framed (Some ([0, 0, 0, 1] @ tag ''tRNS'' @ [9]))"
  "framed_payload ([0, 0, 0, 3] @ tag ''PLTE'' @ [1, 2, 3]) = Some [1, 2, 3]"
  "framed_payload ([0, 0, 0, 1] @ tag ''tRNS'' @ [9]) = Some [9]"
  by (simp_all add: framed_def framed_payload_def tag_def BigEndian_Uint32_def Let_def)

lemma demo_schedules:
  "valid_schedule 2 [1, 0]" "valid_schedule 2 [0, 1]"
  by (auto simp: valid_schedule_def)

lemma demo_apng_run: "snd (EncodeAll demo_Encode [1, 0] demo_writer demo_apng) = None"
proof (rule EncodeAll_succeeds)
  show "Images demo_apng \<noteq> []" by (simp add: demo_apng_def)
  show "length (Images demo_apng) = length (Delays demo_apng)" by (simp add: demo_apng_def)
  show "\<forall>x. Disposals demo_apng = Some x \<longrightarrow> length (Images demo_apng) = length x"
    by (simp add: demo_apng_def)
  show "fullfillFrameRegionConstraints (Images demo_apng)"
    by (simp add: demo_apng_def fullfillFrameRegionConstraints_def demo_image_def)
  show "wscript demo_writer = []" by (simp add: demo_writer_def)
  show "valid_schedule (length (Images demo_apng)) [1, 0]"
    using demo_schedules by (simp add: demo_apng_def numeral_2_eq_2)
  show "\<forall>i<length (Images demo_apng).
          \<exists>fd. frame_worker demo_Encode i (Images demo_apng ! i) = Inr fd"
    by (simp add: demo_apng_def less_Suc_eq demo_worker_plain)
  show "first_palette demo_Encode (Images demo_apng ! 0) = Inr (False, None, None)"
    by (simp add: demo_apng_def demo_first_palette)
  show "framed None" by (rule demo_framed)
  show "framed None" by (rule demo_framed)
  show "length (frame_ihdr demo_Encode demo_apng 0) < 2 ^ 32"
    by (simp add: frame_ihdr_def demo_apng_def demo_worker_plain)
  show "\<forall>d\<in>set (frame_idats demo_Encode demo_apng 0). length d < 2 ^ 32"
    by (simp add: frame_idats_def demo_apng_def demo_worker_plain)
  show "\<forall>i. 1 \<le> i \<and> i < length (Images demo_apng) \<longrightarrow>
          (\<forall>d\<in>set (frame_idats demo_Encode demo_apng i). length d + 4 < 2 ^ 32)"
    by (auto simp: frame_idats_def demo_apng_def less_Suc_eq demo_worker_plain)
qed

lemma demo_paletted_run: "snd (EncodeAll demo_Encode [0, 1] demo_writer demo_paletted) = None"
proof (rule EncodeAll_succeeds)
  show "Images demo_paletted \<noteq> []" by (simp add: demo_paletted_def)
  show "length (Images demo_paletted) = length (Delays demo_paletted)"
    by (simp add: demo_paletted_def)
  show "\<forall>x. Disposals demo_paletted = Some x \<longrightarrow> length (Images demo_paletted) = length x"
    by (simp add: demo_paletted_def)
  show "fullfillFrameRegionConstraints (Images demo_paletted)"
    by (simp add: demo_paletted_def fullfillFrameRegionConstraints_def demo_image_def)
  show "wscript demo_writer = []" by (simp add: demo_writer_def)
  show "valid_schedule (length (Images demo_paletted)) [0, 1]"
    using demo_schedules by (simp add: demo_paletted_def numeral_2_eq_2)
  show "\<forall>i<length (Images demo_paletted).
          \<exists>fd. frame_worker demo_Encode i (Images demo_paletted ! i) = Inr fd"
    by (simp add: demo_paletted_def less_Suc_eq demo_worker_paletted)
  show "first_palette demo_Encode (Images demo_paletted ! 0) =
          Inr (True, Some ([0, 0, 0, 3] @ tag ''PLTE'' @ [1, 2, 3]),
               Some ([0, 0, 0, 1] @ tag ''tRNS'' @ [9]))"
    by (simp add: demo_paletted_def demo_first_palette)
  show "framed (Some ([0, 0, 0, 3] @ tag ''PLTE'' @ [1, 2, 3]))" by (rule demo_framed)
  show "framed (Some ([0, 0, 0, 1] @ tag ''tRNS'' @ [9]))" by (rule demo_framed)
  show "length (frame_ihdr demo_Encode demo_paletted 0) < 2 ^ 32"
    by (simp add: frame_ihdr_def demo_paletted_def demo_worker_paletted)
  show "\<forall>d\<in>set (frame_idats demo_Encode demo_paletted 0). length d < 2 ^ 32"
    by (simp add: frame_idats_def demo_paletted_def demo_worker_paletted)
  show "\<forall>i. 1 \<le> i \<and> i < length (Images demo_paletted) \<longrightarrow>
          (\<forall>d\<in>set (frame_idats demo_Encode demo_paletted i). length d + 4 < 2 ^ 32)"
    by (auto simp: frame_idats_def demo_paletted_def less_Suc_eq demo_worker_paletted)
qed

section \<open>Chunk writing\<close>

text \<open>
  C3. Whatever the tag and the payload, a chunk that \<open>writeChunk\<close> gets out without an
  error extends the output by exactly \<open>12 + length b\<close> bytes: first the payload length as
  four big-endian bytes (and the length fits them), then the four tag bytes, then the
  payload, and as the last four bytes the big-endian IEEE CRC-32 of the tag bytes followed
  by the payload.
\<close>

theorem writeChunk_layout:
  assumes "err (writeChunk e b name) = None"
  shows "\<exists>out. wdata (writer (writeChunk e b name)) = wdata (writer e) @ out \<and>
           length out = length b + 12 \<and>
           take 4 out = writeUint32 (of_nat (length b)) \<and>
           unat (BigEndian_Uint32 (take 4 out)) = length b \<and>
           take 4 (drop 4 out) = tag (take 4 name) \<and>
           take (length b) (drop 8 out) = b \<and>
           drop (length b + 8) out = writeUint32 (ChecksumIEEE (tag (take 4 name) @ b))"
proof -
  from writeChunk_ok [OF assms]
  have len: "length b < 2 ^ 32" and nm: "4 \<le> length name"
    and out: "wdata (writer (writeChunk e b name)) =
                wdata (writer e) @ chunk_bytes (tag (take 4 name), b)"
    by simp_all
  let ?out = "chunk_bytes (tag (take 4 name), b)"
  have t4: "take 4 ?out = writeUint32 (of_nat (length b))"
    by (simp add: chunk_bytes_def)
  have "unat (BigEndian_Uint32 (take 4 ?out)) = length b"
    using len by (simp add: t4 BigEndian_writeUint32 unat_of_nat)
  moreover have "length ?out = length b + 12"
    using nm by (simp add: chunk_bytes_def)
  moreover have "take 4 (drop 4 ?out) = tag (take 4 name)"
    using nm by (simp add: chunk_bytes_def)
  moreover have "take (length b) (drop 8 ?out) = b"
    using nm by (simp add: chunk_bytes_def)
  moreover have "drop (length b + 8) ?out =
      writeUint32 (ChecksumIEEE (tag (take 4 name) @ b))"
    using nm by (simp add: chunk_bytes_def)
  ultimately show ?thesis using out t4 by blast
qed

theorem writeChunk_layout_witness:
  "err (writeChunk demo_encoder [1, 2] ''IDAT'') = None \<and>
   (\<exists>out. wdata (writer (writeChunk demo_encoder [1, 2] ''IDAT'')) =
            wdata (writer demo_encoder) @ out \<and>
          length out = length [1, 2 :: byte] + 12 \<and>
          take 4 out = writeUint32 (of_nat (length [1, 2 :: byte])) \<and>
          unat (BigEndian_Uint32 (take 4 out)) = length [1, 2 :: byte] \<and>
          take 4 (drop 4 out) = tag (take 4 ''IDAT'') \<and>
          take (length [1, 2 :: byte]) (drop 8 out) = [1, 2] \<and>
          drop (length [1, 2 :: byte] + 8) out =
            writeUint32 (ChecksumIEEE (tag (take 4 ''IDAT'') @ [1, 2])))"
proof -
  have ok: "err (writeChunk demo_encoder [1, 2] ''IDAT'') = None"
    by (simp add: writeChunk_def demo_encoder_def demo_writer_def Write_def Let_def)
  show ?thesis
    by (rule conjI [OF ok writeChunk_layout [OF ok]])
qed

text \<open>
  Once the error field of the encoder is set, \<open>writeChunk\<close> returns the encoder as it got
  it: the writer is not called (its bytes and its script are what they were) and the
  stored error stays, also over any further sequence of \<open>writeChunk\<close> calls.
\<close>

lemma writeChunk_sticky:
  assumes "err e = Some x"
  shows "writeChunk e b name = e \<and>
         writer (writeChunk e b name) = writer e \<and>
         err (writeChunk e b name) = Some x \<and>
         foldl (\<lambda>e (b, name). writeChunk e b name) e calls = e"
proof -
  have one: "writeChunk e b name = e" for b name
    using assms by (simp add: writeChunk_def)
  have "foldl (\<lambda>e (b, name). writeChunk e b name) e calls = e"
    by (induction calls) (simp_all add: one split: prod.splits)
  with one assms show ?thesis by simp
qed

lemma failed_encoder_sticky:
  "err failed_encoder = Some (IOError 1) \<and>
   writeChunk failed_encoder [1, 2] ''IDAT'' = failed_encoder \<and>
   foldl (\<lambda>e (b, name). writeChunk e b name) failed_encoder
     [([1], ''IDAT''), ([], ''IEND'')] = failed_encoder"
proof -
  have h: "err failed_encoder = Some (IOError 1)"
    by (simp add: failed_encoder_def)
  show ?thesis
    using h writeChunk_sticky [OF h, of "[1, 2]" "''IDAT''" "[([1], ''IDAT''), ([], ''IEND'')]"]
    by simp
qed

section \<open>The container of a successful run\<close>

lemma run_pair: "snd r = None \<Longrightarrow> r = (fst r, None)"
  by (cases r) simp

lemma frame_group_shape:
  "\<exists>fc ds'. frame_group a ds i =
     (tag ''fcTL'', fc) # map (Pair (tag (if i = 0 then ''IDAT'' else ''fdAT''))) ds'"
proof (cases "i = 0")
  case True
  then show ?thesis
    by (auto simp: frame_group_def frame_control_def buildFrameControl_def)
next
  case False
  have m: "map (\<lambda>(k, d). buildFrameData d (frame_seq ds i + 1 + of_nat k)) xs =
        map (Pair (tag ''fdAT'')) (map (\<lambda>(k, d). writeUint32 (frame_seq ds i + 1 + of_nat k) @ d) xs)"
    for xs :: "(nat \<times> byte list) list"
    by (induction xs) (auto simp: buildFrameData_def)
  have g: "frame_group a ds i =
      frame_control a i (frame_seq ds i) #
      map (\<lambda>(k, d). buildFrameData d (frame_seq ds i + 1 + of_nat k)) (enumerate 0 (ds i))"
    using False by (simp add: frame_group_def)
  have fc: "frame_control a i (frame_seq ds i) =
      (tag ''fcTL'', snd (frame_control a i (frame_seq ds i)))"
    by (simp add: frame_control_def buildFrameControl_def)
  have t: "tag (if i = 0 then ''IDAT'' else ''fdAT'') = tag ''fdAT''"
    using False by simp
  show ?thesis
    unfolding g m t by (subst fc) (intro exI, rule refl)
qed

text \<open>
  C1. In the container of a successful run, read back chunk by chunk, the sequence
  numbers of the frame-control and frame-data chunks, in the order of emission, are
  0, 1, 2, ... without a gap (as 32-bit values). These chunks are the control chunk of
  frame 0 with number 0 and then, for each later frame in index order, its control chunk
  followed by one frame-data chunk per data payload, however many there are.
\<close>

theorem EncodeAll_sequence_numbers:
  assumes "EncodeAll png_Encode sched w a = (w', None)"
    and "valid_schedule (length (Images a)) sched"
  shows "\<exists>cs. read_chunks (drop (length (wdata w) + length pngHeader) (wdata w')) = Some cs \<and>
           map seq_no (filter sequenced cs) = map of_nat [0..<length (filter sequenced cs)] \<and>
           filter sequenced cs =
             frame_control a 0 0 #
             later_frames a (frame_idats png_Encode a) 1 [1..<length (Images a)]"
proof -
  let ?cs = "encoded png_Encode a"
  let ?fs = "frame_control a 0 0 #
             later_frames a (frame_idats png_Encode a) 1 [1..<length (Images a)]"
  have rd: "read_chunks (drop (length (wdata w) + length pngHeader) (wdata w')) = Some ?cs"
    using assms by (rule EncodeAll_reparse(1))
  have fs: "filter sequenced ?cs = ?fs"
    by (rule filter_sequenced_encoded)
  have "numbered 0 ?fs"
    by (simp add: numbered_Cons numbered_later_frames)
  then have "map seq_no ?fs = map of_nat [0..<length ?fs]"
    by (simp add: numbered_def)
  with rd fs show ?thesis by simp
qed

theorem EncodeAll_sequence_numbers_witness:
  "EncodeAll demo_Encode [1, 0] demo_writer demo_apng =
     (fst (EncodeAll demo_Encode [1, 0] demo_writer demo_apng), None) \<and>
   valid_schedule (length (Images demo_apng)) [1, 0] \<and>
   (\<exists>cs. read_chunks (drop (length (wdata demo_writer) + length pngHeader)
            (wdata (fst (EncodeAll demo_Encode [1, 0] demo_writer demo_apng)))) = Some cs \<and>
         map seq_no (filter sequenced cs) = map of_nat [0..<length (filter sequenced cs)] \<and>
         filter sequenced cs =
           frame_control demo_apng 0 0 #
           later_frames demo_apng (frame_idats demo_Encode demo_apng) 1
             [1..<length (Images demo_apng)])"
proof -
  have h1: "EncodeAll demo_Encode [1, 0] demo_writer demo_apng =
     (fst (EncodeAll demo_Encode [1, 0] demo_writer demo_apng), None)"
    using demo_apng_run by (rule run_pair)
  have h2: "valid_schedule (length (Images demo_apng)) [1, 0]"
    using demo_schedules by (simp add: demo_apng_def numeral_2_eq_2)
  from EncodeAll_sequence_numbers [OF h1 h2] h1 h2 show ?thesis by blast
qed

lemma filter_fcTL_group:
  "filter (\<lambda>c. fst c = tag ''fcTL'') (frame_group a ds i) = [frame_control a i (frame_seq ds i)]"
proof -
  have 1: "filter (\<lambda>c. fst c = tag ''fcTL'') (map (Pair (tag ''IDAT'')) xs) = []" for xs :: "byte list list"
    by (induction xs) simp_all
  have 2: "filter (\<lambda>c. fst c = tag ''fcTL'') (map (\<lambda>(k, d). buildFrameData d (f k)) xs) = []"
    for xs :: "(nat \<times> byte list) list" and f
    by (induction xs) (auto simp: buildFrameData_def)
  show ?thesis
    by (simp add: frame_group_def 1 2)
qed

lemma filter_concat_map:
  assumes "\<And>x. x \<in> set xs \<Longrightarrow> filter P (g x) = [f x]"
  shows "filter P (concat (map g xs)) = map f xs"
  using assms by (induction xs) simp_all

lemma filter_fcTL_by_frame:
  "filter (\<lambda>c. fst c = tag ''fcTL'')
     ((tag ''IHDR'', hdr) # global_palette enc a @ buildAnimationControl n l #
      concat (map (frame_group a ds) is) @ [(tag ''IEND'', [])]) =
   map (\<lambda>i. frame_control a i (frame_seq ds i)) is"
proof -
  have "filter (\<lambda>c. fst c = tag ''fcTL'') (global_palette enc a) = []"
    using global_palette_forms [of enc a] by auto
  moreover have "filter (\<lambda>c. fst c = tag ''fcTL'') (concat (map (frame_group a ds) is)) =
      map (\<lambda>i. frame_control a i (frame_seq ds i)) is"
    by (rule filter_concat_map) (rule filter_fcTL_group)
  ultimately show ?thesis
    by (simp add: buildAnimationControl_def)
qed

section \<open>Where errors come from\<close>























section \<open>Validation\<close>



text \<open>
  C4. When the list of frames is empty, or the number of delays differs from the number of
  frames, or disposals are given and their number differs from the number of frames,
  \<open>EncodeAll\<close> returns a validation error and the writer as it received it: nothing has
  been written, no call to the writer has been made. The outcome is the same whatever the
  PNG encoder and the schedule of the frame workers are, so no per-frame work has a part
  in it.
\<close>

theorem EncodeAll_count_validation:
  assumes "Images a = [] \<or> length (Delays a) \<noteq> length (Images a) \<or>
           (\<exists>d. Disposals a = Some d \<and> length d \<noteq> length (Images a))"
  shows "\<exists>er. EncodeAll png_Encode sched w a = (w, Some er) \<and> ValidationError er \<and>
              er \<in> {ErrNeedImage, ErrDelayMismatch, ErrDisposalMismatch} \<and>
              (\<forall>png_Encode' sched'. EncodeAll png_Encode' sched' w a = (w, Some er))"
  using assms
  by (auto simp: EncodeAll_def ValidationError_def)

theorem EncodeAll_count_validation_witness:
  "(Images demo_short = [] \<or> length (Delays demo_short) \<noteq> length (Images demo_short) \<or>
    (\<exists>d. Disposals demo_short = Some d \<and> length d \<noteq> length (Images demo_short))) \<and>
   (\<exists>er. EncodeAll demo_Encode [0, 1] demo_writer demo_short = (demo_writer, Some er) \<and>
         ValidationError er \<and>
         er \<in> {ErrNeedImage, ErrDelayMismatch, ErrDisposalMismatch} \<and>
         (\<forall>png_Encode' sched'.
            EncodeAll png_Encode' sched' demo_writer demo_short = (demo_writer, Some er)))"
proof -
  have h: "Images demo_short = [] \<or> length (Delays demo_short) \<noteq> length (Images demo_short) \<or>
    (\<exists>d. Disposals demo_short = Some d \<and> length d \<noteq> length (Images demo_short))"
    by (simp add: demo_short_def demo_apng_def)
  from EncodeAll_count_validation [OF h, of demo_Encode "[0, 1]" demo_writer] h
  show ?thesis by blast
qed










lemma demo_Encode_ColorModel_eq: "demo_Encode (im\<lparr>ColorModel := c\<rparr>) = demo_Encode im"
  by (simp add: demo_Encode_def)

lemma demo_Encode_ColorModel [simp]:
  "frame_worker demo_Encode i (Some (im\<lparr>ColorModel := c\<rparr>)) = frame_worker demo_Encode i (Some im)"
  "first_palette demo_Encode (Some (im\<lparr>ColorModel := c\<rparr>)) = first_palette demo_Encode (Some im)"
  by (auto simp: frame_worker_def encodePalettedImage_def first_palette_def
      demo_Encode_ColorModel_eq split: sum.splits)


subsection \<open>Errors of the earlier revision\<close>














subsection \<open>Colour models\<close>






section \<open>The global palette\<close>

lemma ReadFull_ok:
  "ReadFull b n = (b', Inr d) \<Longrightarrow> n \<le> length b \<and> b' = drop n b \<and> d = take n b"
  by (auto simp: ReadFull_def split: if_splits)

lemma parsePLTE_plte:
  "parsePLTE c l = (c', None) \<Longrightarrow> bb c' = drop (unat l) (bb c)"
  "parsetRNS c l = (c', None) \<Longrightarrow> bb c' = drop (unat l) (bb c) \<and> plte c' = plte c"
  by (auto simp: parsePLTE_def parsetRNS_def Let_def
      split: prod.splits sum.splits if_splits option.splits dest: ReadFull_ok)

lemma parsePNGChunkWithPalette_step:
  assumes p: "parsePNGChunkWithPalette c = (c', None)"
  shows "8 \<le> length (bb c) \<and>
         (take 4 (drop 4 (bb c)) = tag ''PLTE'' \<or>
          plte c' = plte c \<and>
          (if take 4 (drop 4 (bb c)) = tag ''IEND'' then stage c' = dsSeenIEND
           else bb c' = drop (unat (BigEndian_Uint32 (take 4 (bb c))) + 12) (bb c)))"
proof -
  obtain b r where R: "ReadFull (bb c) 8 = (b, r)" by (cases "ReadFull (bb c) 8")
  with p obtain tmp where r: "r = Inr tmp"
    by (cases r) (auto simp: parsePNGChunkWithPalette_def)
  from ReadFull_ok [OF R [unfolded r]]
  have len: "8 \<le> length (bb c)" and b: "b = drop 8 (bb c)" and tmp: "tmp = take 8 (bb c)"
    by simp_all
  have t4: "take 4 tmp = take 4 (bb c)" and d4: "drop 4 tmp = take 4 (drop 4 (bb c))"
    by (simp_all add: tmp drop_take)
  let ?t = "take 4 (drop 4 (bb c))"
  let ?l = "BigEndian_Uint32 (take 4 (bb c))"
  have d: "drop 4 (drop (unat ?l) (drop 8 (bb c))) = drop (unat ?l + 12) (bb c)"
    by (simp add: add.commute)
  show ?thesis
  proof (cases "?t = tag ''PLTE''")
    case True
    with len show ?thesis by simp
  next
    case False
    have "plte c' = plte c \<and>
          (if ?t = tag ''IEND'' then stage c' = dsSeenIEND
           else bb c' = drop (unat ?l + 12) (bb c))"
      using p R r False d
      by (auto simp: parsePNGChunkWithPalette_def Let_def t4 d4 b skip_crc_def Buffer_Next_def
          tag_def
          split: if_splits prod.splits sum.splits dest: ReadFull_ok parsePLTE_plte)
    with len show ?thesis by simp
  qed
qed

lemma fetchPaletteChunk_loop_plte:
  assumes "fetchPaletteChunk_loop c = Inr c'" and "plte c' \<noteq> None"
    and "stage c \<noteq> dsSeenIEND"
  shows "plte c \<noteq> None \<or> tag ''PLTE'' \<in> set (stream_tags (bb c))"
  using assms
proof (induction c rule: fetchPaletteChunk_loop.induct)
  case (1 c)
  obtain c1 r where p: "parsePNGChunkWithPalette c = (c1, r)"
    by (cases "parsePNGChunkWithPalette c")
  with "1.prems" have r: "r = None"
    by (cases r) (auto simp: fetchPaletteChunk_loop.simps [of c])
  with p "1.prems" have loop: "fetchPaletteChunk_loop c1 = Inr c'"
    by (simp add: fetchPaletteChunk_loop.simps [of c])
  from parsePNGChunkWithPalette_step [OF p [unfolded r]]
  have len: "8 \<le> length (bb c)"
    and st: "take 4 (drop 4 (bb c)) = tag ''PLTE'' \<or>
          plte c1 = plte c \<and>
          (if take 4 (drop 4 (bb c)) = tag ''IEND'' then stage c1 = dsSeenIEND
           else bb c1 = drop (unat (BigEndian_Uint32 (take 4 (bb c))) + 12) (bb c))"
    by simp_all
  show ?case
  proof (cases "take 4 (drop 4 (bb c)) = tag ''PLTE''")
    case True
    with len show ?thesis
      by (subst stream_tags.simps) (simp add: Let_def)
  next
    case False
    with st have pl: "plte c1 = plte c"
      and nx: "if take 4 (drop 4 (bb c)) = tag ''IEND'' then stage c1 = dsSeenIEND
           else bb c1 = drop (unat (BigEndian_Uint32 (take 4 (bb c))) + 12) (bb c)"
      by simp_all
    show ?thesis
    proof (cases "stage c1 = dsSeenIEND")
      case True
      with loop have "c' = c1" by (simp add: fetchPaletteChunk_loop.simps [of c1])
      with pl "1.prems"(2) show ?thesis by simp
    next
      case s1: False
      with nx have ni: "take 4 (drop 4 (bb c)) \<noteq> tag ''IEND''"
        and b1: "bb c1 = drop (unat (BigEndian_Uint32 (take 4 (bb c))) + 12) (bb c)"
        by (auto split: if_splits)
      from "1.IH" [OF "1.prems"(3) p [symmetric] r loop "1.prems"(2) s1]
      have "plte c1 \<noteq> None \<or> tag ''PLTE'' \<in> set (stream_tags (bb c1))" .
      then show ?thesis
      proof
        assume "plte c1 \<noteq> None"
        with pl show ?thesis by simp
      next
        assume "tag ''PLTE'' \<in> set (stream_tags (bb c1))"
        with len ni b1 have "tag ''PLTE'' \<in> set (stream_tags (bb c))"
          by (subst stream_tags.simps) (simp add: Let_def)
        then show ?thesis ..
      qed
    qed
  qed
qed

lemma fetchPaletteChunk_plte:
  assumes "fetchPaletteChunk buf = Inr (Some g, t)"
  shows "tag ''PLTE'' \<in> set (stream_tags (drop (length pngHeader) buf))"
proof -
  let ?c = "\<lparr>bb = fst (Buffer_Next buf (length pngHeader)), stage = dsStart,
             pc = None, plte = None, trns = None\<rparr>"
  from assms obtain c' where l: "fetchPaletteChunk_loop ?c = Inr c'" and p: "plte c' = Some g"
    by (auto simp: fetchPaletteChunk_def Let_def split: sum.splits)
  from fetchPaletteChunk_loop_plte [OF l] p
  show ?thesis by (simp add: Buffer_Next_def)
qed

lemma frame_group_tags:
  "\<forall>c \<in> set (frame_group a ds i). fst c \<noteq> tag ''PLTE'' \<and> fst c \<noteq> tag ''tRNS''"
proof -
  from frame_group_shape [of a ds i] obtain fc ds' where
    "frame_group a ds i =
       (tag ''fcTL'', fc) # map (Pair (tag (if i = 0 then ''IDAT'' else ''fdAT''))) ds'"
    by blast
  then show ?thesis by auto
qed

lemma global_palette_source:
  assumes "global_palette enc a \<noteq> []"
  shows "\<exists>im buf. Images a ! 0 = Some im \<and> isPaletted im \<and> enc im = Inr buf \<and>
           tag ''PLTE'' \<in> set (stream_tags (drop (length pngHeader) buf))"
proof -
  from assms obtain h p t where fp: "first_palette enc (Images a ! 0) = Inr (h, p, t)"
    and pc: "palette_chunks h p t \<noteq> []"
    by (auto simp: global_palette_def split: sum.splits prod.splits)
  from pc obtain g where h: h and p: "p = Some g"
    by (auto simp: palette_chunks_def split: if_splits option.splits)
  from fp h obtain im where im: "Images a ! 0 = Some im" "isPaletted im"
    by (cases "Images a ! 0") (auto simp: first_palette_def split: if_splits)
  from fp im obtain buf where buf: "enc im = Inr buf"
    by (cases "enc im") (auto simp: first_palette_def)
  from fp im buf p have "fetchPaletteChunk buf = Inr (Some g, t)"
    by (auto simp: first_palette_def split: sum.splits)
  from fetchPaletteChunk_plte [OF this] im buf show ?thesis by blast
qed

text \<open>
  C10. In the output of a successful run, read back chunk by chunk, the header chunk is
  followed by nothing, by one \<^verbatim>\<open>PLTE\<close> chunk, or by one \<^verbatim>\<open>PLTE\<close> chunk and one \<^verbatim>\<open>tRNS\<close>
  chunk directly after it, and no chunk after these is a \<^verbatim>\<open>PLTE\<close> or \<^verbatim>\<open>tRNS\<close> chunk: a
  \<^verbatim>\<open>tRNS\<close> chunk never comes without the \<^verbatim>\<open>PLTE\<close> chunk before it. If there is a \<^verbatim>\<open>PLTE\<close>
  chunk, frame 0 is a paletted image and the stream the PNG encoder gives for it contains
  a \<^verbatim>\<open>PLTE\<close> chunk; so there is neither chunk when frame 0 is not paletted.
\<close>

theorem EncodeAll_global_palette:
  assumes "EncodeAll png_Encode sched w a = (w', None)"
    and "valid_schedule (length (Images a)) sched"
  shows "\<exists>hdr pal rest.
           read_chunks (drop (length (wdata w) + length pngHeader) (wdata w')) =
             Some ((tag ''IHDR'', hdr) # pal @ rest) \<and>
           (\<forall>c \<in> set rest. fst c \<noteq> tag ''PLTE'' \<and> fst c \<noteq> tag ''tRNS'') \<and>
           (pal = [] \<or> (\<exists>p. pal = [(tag ''PLTE'', p)]) \<or>
            (\<exists>p t. pal = [(tag ''PLTE'', p), (tag ''tRNS'', t)])) \<and>
           (pal \<noteq> [] \<longrightarrow>
              (\<exists>im buf. Images a ! 0 = Some im \<and> isPaletted im \<and> png_Encode im = Inr buf \<and>
                 tag ''PLTE'' \<in> set (stream_tags (drop (length pngHeader) buf)))) \<and>
           (\<forall>im. Images a ! 0 = Some im \<and> \<not> isPaletted im \<longrightarrow> pal = [])"
proof -
  let ?N = "length (Images a)"
  let ?pal = "global_palette png_Encode a"
  let ?rest = "buildAnimationControl (of_nat ?N) (LoopCount a) #
               concat (map (frame_group a (frame_idats png_Encode a)) [0..<?N]) @
               [(tag ''IEND'', [])]"
  have rd: "read_chunks (drop (length (wdata w) + length pngHeader) (wdata w')) =
      Some ((tag ''IHDR'', frame_ihdr png_Encode a 0) # ?pal @ ?rest)"
    using assms by (rule EncodeAll_by_frame)
  have rest: "\<forall>c \<in> set ?rest. fst c \<noteq> tag ''PLTE'' \<and> fst c \<noteq> tag ''tRNS''"
    using frame_group_tags by (auto simp: buildAnimationControl_def)
  have src: "?pal \<noteq> [] \<longrightarrow>
      (\<exists>im buf. Images a ! 0 = Some im \<and> isPaletted im \<and> png_Encode im = Inr buf \<and>
         tag ''PLTE'' \<in> set (stream_tags (drop (length pngHeader) buf)))"
    using global_palette_source by blast
  then have np: "\<forall>im. Images a ! 0 = Some im \<and> \<not> isPaletted im \<longrightarrow> ?pal = []"
    by auto
  from rd rest src np global_palette_forms [of png_Encode a] show ?thesis
    by (intro exI [of _ "frame_ihdr png_Encode a 0"] exI [of _ ?pal] exI [of _ ?rest]) simp
qed

theorem EncodeAll_global_palette_witness:
  "EncodeAll demo_Encode [0, 1] demo_writer demo_paletted =
     (fst (EncodeAll demo_Encode [0, 1] demo_writer demo_paletted), None) \<and>
   valid_schedule (length (Images demo_paletted)) [0, 1] \<and>
   (\<exists>hdr pal rest.
      read_chunks (drop (length (wdata demo_writer) + length pngHeader)
        (wdata (fst (EncodeAll demo_Encode [0, 1] demo_writer demo_paletted)))) =
        Some ((tag ''IHDR'', hdr) # pal @ rest) \<and>
      (\<forall>c \<in> set rest. fst c \<noteq> tag ''PLTE'' \<and> fst c \<noteq> tag ''tRNS'') \<and>
      (pal = [] \<or> (\<exists>p. pal = [(tag ''PLTE'', p)]) \<or>
       (\<exists>p t. pal = [(tag ''PLTE'', p), (tag ''tRNS'', t)])) \<and>
      (pal \<noteq> [] \<longrightarrow>
         (\<exists>im buf. Images demo_paletted ! 0 = Some im \<and> isPaletted im \<and>
            demo_Encode im = Inr buf \<and>
            tag ''PLTE'' \<in> set (stream_tags (drop (length pngHeader) buf)))) \<and>
      (\<forall>im. Images demo_paletted ! 0 = Some im \<and> \<not> isPaletted im \<longrightarrow> pal = []))"
proof -
  have h1: "EncodeAll demo_Encode [0, 1] demo_writer demo_paletted =
     (fst (EncodeAll demo_Encode [0, 1] demo_writer demo_paletted), None)"
    using demo_paletted_run by (rule run_pair)
  have h2: "valid_schedule (length (Images demo_paletted)) [0, 1]"
    using demo_schedules by (simp add: demo_paletted_def numeral_2_eq_2)
  from EncodeAll_global_palette [OF h1 h2] h1 h2 show ?thesis by blast
qed

section \<open>The data payloads of the frames\<close>

lemma parse_sub_ok:
  "parseIHDR c l = (c', None) \<Longrightarrow>
     bb c' = drop (unat l) (bb c) \<and> stage c' = stage c \<and>
     (\<exists>p p'. pc c = Some p \<and> pc c' = Some p' \<and> pc_idats p' = pc_idats p)"
  "parseIDAT c l = (c', None) \<Longrightarrow>
     bb c' = drop (unat l) (bb c) \<and> stage c' = stage c \<and> unat l \<le> length (bb c) \<and>
     (\<exists>p p'. pc c = Some p \<and> pc c' = Some p' \<and>
        pc_idats p' = pc_idats p @ [take (unat l) (bb c)])"
  "parsePLTE c l = (c', None) \<Longrightarrow>
     bb c' = drop (unat l) (bb c) \<and> stage c' = stage c \<and>
     (\<forall>p. pc c = Some p \<longrightarrow> (\<exists>p'. pc c' = Some p' \<and> pc_idats p' = pc_idats p))"
  "parsetRNS c l = (c', None) \<Longrightarrow>
     bb c' = drop (unat l) (bb c) \<and> stage c' = stage c \<and>
     (\<forall>p. pc c = Some p \<longrightarrow> (\<exists>p'. pc c' = Some p' \<and> pc_idats p' = pc_idats p))"
  by (auto simp: parseIHDR_def parseIDAT_def parsePLTE_def parsetRNS_def Let_def Buffer_Next_def
      split: prod.splits sum.splits if_splits option.splits dest: ReadFull_ok)

lemma parsePNGChunk_step:
  assumes p: "parsePNGChunk c = (c', None)" and pc: "pc c = Some q"
  shows "8 \<le> length (bb c) \<and>
         (\<exists>q'. pc c' = Some q' \<and>
            pc_idats q' = pc_idats q @
              (if take 4 (drop 4 (bb c)) = tag ''IDAT''
               then [take (unat (BigEndian_Uint32 (take 4 (bb c)))) (drop 8 (bb c))] else [])) \<and>
         (if take 4 (drop 4 (bb c)) = tag ''IEND'' then stage c' = dsSeenIEND
          else (stage c' = stage c \<or> stage c' \<noteq> dsSeenIEND) \<and>
               bb c' = drop (unat (BigEndian_Uint32 (take 4 (bb c))) + 12) (bb c))"
proof -
  obtain b r where R: "ReadFull (bb c) 8 = (b, r)" by (cases "ReadFull (bb c) 8")
  with p obtain tmp where r: "r = Inr tmp"
    by (cases r) (auto simp: parsePNGChunk_def)
  from ReadFull_ok [OF R [unfolded r]]
  have len: "8 \<le> length (bb c)" and b: "b = drop 8 (bb c)" and tmp: "tmp = take 8 (bb c)"
    by simp_all
  have t4: "take 4 tmp = take 4 (bb c)" and d4: "drop 4 tmp = take 4 (drop 4 (bb c))"
    by (simp_all add: tmp drop_take)
  let ?t = "take 4 (drop 4 (bb c))"
  let ?l = "BigEndian_Uint32 (take 4 (bb c))"
  have d: "drop 4 (drop (unat ?l) (drop 8 (bb c))) = drop (unat ?l + 12) (bb c)"
    by (simp add: add.commute)
  have "(\<exists>q'. pc c' = Some q' \<and>
            pc_idats q' = pc_idats q @
              (if ?t = tag ''IDAT'' then [take (unat ?l) (drop 8 (bb c))] else [])) \<and>
         (if ?t = tag ''IEND'' then stage c' = dsSeenIEND
          else (stage c' = stage c \<or> stage c' \<noteq> dsSeenIEND) \<and>
               bb c' = drop (unat ?l + 12) (bb c))"
    using p R r d pc
    by (auto simp: parsePNGChunk_def Let_def t4 d4 b skip_crc_def Buffer_Next_def tag_def
        split: if_splits prod.splits sum.splits
        dest!: parse_sub_ok)
  with len show ?thesis by simp
qed

lemma fetchPNGChunk_loop_idats:
  assumes "fetchPNGChunk_loop c = Inr c'" and "pc c = Some q" and "stage c \<noteq> dsSeenIEND"
  shows "\<exists>q'. pc c' = Some q' \<and>
           pc_idats q' = pc_idats q @
             map snd (filter (\<lambda>x. fst x = tag ''IDAT'') (stream_chunks (bb c)))"
  using assms
proof (induction c arbitrary: q rule: fetchPNGChunk_loop.induct)
  case (1 c)
  let ?t = "take 4 (drop 4 (bb c))"
  let ?n = "unat (BigEndian_Uint32 (take 4 (bb c)))"
  obtain c1 r where p: "parsePNGChunk c = (c1, r)"
    by (cases "parsePNGChunk c")
  with "1.prems" have r: "r = None"
    by (cases r) (auto simp: fetchPNGChunk_loop.simps [of c])
  with p "1.prems" have loop: "fetchPNGChunk_loop c1 = Inr c'"
    by (simp add: fetchPNGChunk_loop.simps [of c])
  from parsePNGChunk_step [OF p [unfolded r] "1.prems"(2)] obtain q1 where
    len: "8 \<le> length (bb c)" and q1: "pc c1 = Some q1"
    and id1: "pc_idats q1 = pc_idats q @ (if ?t = tag ''IDAT'' then [take ?n (drop 8 (bb c))] else [])"
    and nx: "if ?t = tag ''IEND'' then stage c1 = dsSeenIEND
             else (stage c1 = stage c \<or> stage c1 \<noteq> dsSeenIEND) \<and> bb c1 = drop (?n + 12) (bb c)"
    by blast
  show ?case
  proof (cases "?t = tag ''IEND''")
    case True
    with nx have "stage c1 = dsSeenIEND" by simp
    with loop have c': "c' = c1" by (simp add: fetchPNGChunk_loop.simps [of c1])
    have "filter (\<lambda>x. fst x = tag ''IDAT'') (stream_chunks (bb c)) = []"
      using len True by (subst stream_chunks.simps) (simp add: Let_def tag_def)
    with c' q1 id1 True show ?thesis by (simp add: tag_def)
  next
    case False
    with nx "1.prems"(3) have s1: "stage c1 \<noteq> dsSeenIEND"
      and b1: "bb c1 = drop (?n + 12) (bb c)" by auto
    from "1.IH" [OF "1.prems"(3) p [symmetric] r loop q1 s1] obtain q' where
      q': "pc c' = Some q'"
      and id': "pc_idats q' = pc_idats q1 @
             map snd (filter (\<lambda>x. fst x = tag ''IDAT'') (stream_chunks (bb c1)))"
      by blast
    have sc: "stream_chunks (bb c) = (?t, take ?n (drop 8 (bb c))) # stream_chunks (bb c1)"
      using len False b1 by (subst stream_chunks.simps) (simp add: Let_def)
    from q' id' id1 show ?thesis
      by (simp add: sc)
  qed
qed

lemma fetchPNGChunk_idats:
  assumes "fetchPNGChunk buf = Inr p"
  shows "pc_idats p = stream_idats buf"
proof -
  let ?q = "\<lparr>pc_ihdr = [], pc_idats = [], pc_plte = None, pc_trns = None\<rparr>"
  let ?c = "\<lparr>bb = fst (Buffer_Next buf (length pngHeader)), stage = dsStart,
             pc = Some ?q, plte = None, trns = None\<rparr>"
  from assms obtain c' where l: "fetchPNGChunk_loop ?c = Inr c'" and p: "pc c' = Some p"
    by (auto simp: fetchPNGChunk_def Let_def split: sum.splits option.splits)
  from fetchPNGChunk_loop_idats [OF l, of ?q] p
  show ?thesis by (simp add: Buffer_Next_def stream_idats_def)
qed

lemma frame_worker_idats:
  assumes "frame_worker enc i img = Inr fd"
  shows "\<exists>im buf. img = Some im \<and> enc im = Inr buf \<and> fd_idats fd = stream_idats buf"
proof -
  from assms obtain im where im: "img = Some im"
    by (cases img) (auto simp: frame_worker_def)
  from assms im obtain buf where buf: "enc im = Inr buf"
    by (cases "enc im") (auto simp: frame_worker_def encodePalettedImage_def split: if_splits)
  from assms im buf obtain p where p: "fetchPNGChunk buf = Inr p" and fd: "fd_idats fd = pc_idats p"
    by (cases "fetchPNGChunk buf")
      (auto simp: frame_worker_def encodePalettedImage_def split: if_splits)
  from fetchPNGChunk_idats [OF p] im buf fd show ?thesis by simp
qed

lemma EncodeAll_streams:
  assumes "EncodeAll enc sched w a = (w', None)"
    and "valid_schedule (length (Images a)) sched" and "i < length (Images a)"
  shows "\<exists>im buf. Images a ! i = Some im \<and> enc im = Inr buf \<and>
           frame_idats enc a i = stream_idats buf"
proof -
  from EncodeAll_ok [OF assms(1,2)] assms(3) obtain fd
    where fd: "frame_worker enc i (Images a ! i) = Inr fd" by blast
  from frame_worker_idats [OF fd] fd show ?thesis
    by (auto simp: frame_idats_def)
qed

lemma drop4_enumerate:
  "map (\<lambda>c. drop 4 (snd c)) (map (\<lambda>(k, d). (t, writeUint32 (f k) @ d)) (enumerate n xs)) = xs"
  by (induction xs arbitrary: n) simp_all

lemma seq_no_enumerate:
  "map seq_no (map (\<lambda>(k, d). (t, writeUint32 (s + of_nat k) @ d)) (enumerate n xs)) =
     map (\<lambda>k. s + of_nat k) [n..<n + length xs]"
proof (induction xs arbitrary: n)
  case Nil
  then show ?case by simp
next
  case (Cons x xs)
  have "[n..<n + length (x # xs)] = n # [Suc n..<Suc n + length xs]"
    by (simp add: upt_rec)
  with Cons.IH [of "Suc n"] show ?case
    by (simp add: seq_no_def BigEndian_writeUint32)
qed

lemma seq_no_enumerate0:
  "map seq_no (map (\<lambda>(k, d). (t, writeUint32 (s + of_nat k) @ d)) (enumerate 0 xs)) =
     map (\<lambda>k. s + of_nat k) [0..<length xs]"
  using seq_no_enumerate [of t s 0 xs] by simp

lemma frame_group_payloads:
  "\<exists>fc ds'. frame_group a ds i =
       (tag ''fcTL'', fc) # map (Pair (tag (if i = 0 then ''IDAT'' else ''fdAT''))) ds' \<and>
     map (drop (if i = 0 then 0 else 4)) ds' = ds i"
proof (cases "i = 0")
  case True
  then show ?thesis
    by (auto simp: frame_group_def frame_control_def buildFrameControl_def)
next
  case False
  let ?f = "\<lambda>(k, d). writeUint32 (frame_seq ds i + 1 + of_nat k) @ d"
  have m: "map (\<lambda>(k, d). buildFrameData d (frame_seq ds i + 1 + of_nat k)) xs =
        map (Pair (tag ''fdAT'')) (map ?f xs)"
    for xs :: "(nat \<times> byte list) list"
    by (induction xs) (auto simp: buildFrameData_def)
  have d: "map (drop 4) (map ?f (enumerate n xs)) = xs" for n and xs :: "byte list list"
    by (induction xs arbitrary: n) simp_all
  have g: "frame_group a ds i =
      (tag ''fcTL'', snd (frame_control a i (frame_seq ds i))) #
      map (Pair (tag ''fdAT'')) (map ?f (enumerate 0 (ds i)))"
    using False by (simp add: frame_group_def m frame_control_def buildFrameControl_def)
  show ?thesis
    using False g d [of 0 "ds i"]
    by (intro exI [of _ "snd (frame_control a i (frame_seq ds i))"]
        exI [of _ "map ?f (enumerate 0 (ds i))"]) simp
qed

text \<open>
  C2. Read back chunk by chunk, the output of a successful run is, after the 8-byte
  signature: one \<^verbatim>\<open>IHDR\<close> chunk; nothing, or one \<^verbatim>\<open>PLTE\<close> chunk, or one \<^verbatim>\<open>PLTE\<close> and
  one \<^verbatim>\<open>tRNS\<close> chunk; one \<^verbatim>\<open>acTL\<close> chunk of 8 bytes whose first field is the number
  of frames \<open>N\<close> (as a 32-bit value); \<open>N\<close> groups, one per frame in frame order, each
  one \<^verbatim>\<open>fcTL\<close> chunk followed by one data chunk for every compressed-data payload of the
  stream the PNG encoder gave for that frame, in order: \<^verbatim>\<open>IDAT\<close> chunks holding the
  payloads in group 0, \<^verbatim>\<open>fdAT\<close> chunks holding the payloads after four bytes in the
  others; one empty \<^verbatim>\<open>IEND\<close> chunk.
\<close>

theorem EncodeAll_chunk_structure:
  assumes "EncodeAll png_Encode sched w a = (w', None)"
    and "valid_schedule (length (Images a)) sched"
  shows "\<exists>hdr pal actl groups.
           take (length pngHeader) (drop (length (wdata w)) (wdata w')) = pngHeader \<and>
           read_chunks (drop (length (wdata w) + length pngHeader) (wdata w')) =
             Some ((tag ''IHDR'', hdr) # pal @ (tag ''acTL'', actl) # concat groups @
                   [(tag ''IEND'', [])]) \<and>
           (pal = [] \<or> (\<exists>p. pal = [(tag ''PLTE'', p)]) \<or>
            (\<exists>p t. pal = [(tag ''PLTE'', p), (tag ''tRNS'', t)])) \<and>
           length actl = 8 \<and>
           unat (BigEndian_Uint32 (take 4 actl)) = length (Images a) mod 2 ^ 32 \<and>
           length groups = length (Images a) \<and>
           (\<forall>i < length (Images a). \<exists>im buf fc ds.
              Images a ! i = Some im \<and> png_Encode im = Inr buf \<and>
              groups ! i =
                (tag ''fcTL'', fc) # map (Pair (tag (if i = 0 then ''IDAT'' else ''fdAT''))) ds \<and>
              map (drop (if i = 0 then 0 else 4)) ds = stream_idats buf)"
proof -
  let ?N = "length (Images a)"
  let ?ds = "frame_idats png_Encode a"
  let ?actl = "writeUint32 (of_nat ?N) @ writeUint32 (LoopCount a)"
  let ?groups = "map (frame_group a ?ds) [0..<?N]"
  have sig: "take (length pngHeader) (drop (length (wdata w)) (wdata w')) = pngHeader"
    using assms by (rule EncodeAll_reparse(2))
  have rd: "read_chunks (drop (length (wdata w) + length pngHeader) (wdata w')) =
      Some ((tag ''IHDR'', frame_ihdr png_Encode a 0) # global_palette png_Encode a @
            (tag ''acTL'', ?actl) # concat ?groups @ [(tag ''IEND'', [])])"
    using EncodeAll_by_frame [OF assms] by (simp add: buildAnimationControl_def)
  have cnt: "unat (BigEndian_Uint32 (take 4 ?actl)) = ?N mod 2 ^ 32"
    by (simp add: BigEndian_writeUint32 unat_of_nat)
  have grp: "\<exists>im buf fc ds.
      Images a ! i = Some im \<and> png_Encode im = Inr buf \<and>
      ?groups ! i =
        (tag ''fcTL'', fc) # map (Pair (tag (if i = 0 then ''IDAT'' else ''fdAT''))) ds \<and>
      map (drop (if i = 0 then 0 else 4)) ds = stream_idats buf"
    if i: "i < ?N" for i
  proof -
    from EncodeAll_streams [OF assms i] obtain im buf where
      im: "Images a ! i = Some im" "png_Encode im = Inr buf"
      and st: "?ds i = stream_idats buf" by blast
    from frame_group_payloads [of a ?ds i] obtain fc ds' where
      g: "frame_group a ?ds i =
            (tag ''fcTL'', fc) # map (Pair (tag (if i = 0 then ''IDAT'' else ''fdAT''))) ds'"
      and d: "map (drop (if i = 0 then 0 else 4)) ds' = ?ds i" by blast
    have "?groups ! i = frame_group a ?ds i" using i by simp
    with im g d st show ?thesis by (intro exI [of _ im] exI [of _ buf] exI [of _ fc] exI [of _ ds']) simp
  qed
  from sig rd cnt grp global_palette_forms [of png_Encode a] show ?thesis
    by (intro exI [of _ "frame_ihdr png_Encode a 0"] exI [of _ "global_palette png_Encode a"]
        exI [of _ ?actl] exI [of _ ?groups]) simp
qed

theorem EncodeAll_chunk_structure_witness:
  "EncodeAll demo_Encode [0, 1] demo_writer demo_paletted =
     (fst (EncodeAll demo_Encode [0, 1] demo_writer demo_paletted), None) \<and>
   valid_schedule (length (Images demo_paletted)) [0, 1] \<and>
   (\<exists>hdr pal actl groups.
      take (length pngHeader) (drop (length (wdata demo_writer))
        (wdata (fst (EncodeAll demo_Encode [0, 1] demo_writer demo_paletted)))) = pngHeader \<and>
      read_chunks (drop (length (wdata demo_writer) + length pngHeader)
        (wdata (fst (EncodeAll demo_Encode [0, 1] demo_writer demo_paletted)))) =
        Some ((tag ''IHDR'', hdr) # pal @ (tag ''acTL'', actl) # concat groups @
              [(tag ''IEND'', [])]) \<and>
      (pal = [] \<or> (\<exists>p. pal = [(tag ''PLTE'', p)]) \<or>
       (\<exists>p t. pal = [(tag ''PLTE'', p), (tag ''tRNS'', t)])) \<and>
      length actl = 8 \<and>
      unat (BigEndian_Uint32 (take 4 actl)) = length (Images demo_paletted) mod 2 ^ 32 \<and>
      length groups = length (Images demo_paletted) \<and>
      (\<forall>i < length (Images demo_paletted). \<exists>im buf fc ds.
         Images demo_paletted ! i = Some im \<and> demo_Encode im = Inr buf \<and>
         groups ! i =
           (tag ''fcTL'', fc) # map (Pair (tag (if i = 0 then ''IDAT'' else ''fdAT''))) ds \<and>
         map (drop (if i = 0 then 0 else 4)) ds = stream_idats buf))"
proof -
  have h1: "EncodeAll demo_Encode [0, 1] demo_writer demo_paletted =
     (fst (EncodeAll demo_Encode [0, 1] demo_writer demo_paletted), None)"
    using demo_paletted_run by (rule run_pair)
  have h2: "valid_schedule (length (Images demo_paletted)) [0, 1]"
    using demo_schedules by (simp add: demo_paletted_def numeral_2_eq_2)
  from EncodeAll_chunk_structure [OF h1 h2] h1 h2 show ?thesis by blast
qed


text \<open>
  C9. In the output of a successful run the chunks after the animation-control chunk and
  before the terminator fall into one group per frame. Group 0 is a control chunk
  followed by the compressed-data payloads of the stream the PNG encoder gave for frame
  0, in order, each as the payload of a plain \<^verbatim>\<open>IDAT\<close> chunk, unchanged. Group \<open>i\<close> for
  \<open>i \<ge> 1\<close> is a control chunk followed by the compressed-data payloads of the stream for
  frame \<open>i\<close>, each in an \<^verbatim>\<open>fdAT\<close> chunk whose payload is a 4-byte big-endian sequence
  number (the next one after the control chunk's, then counting up) and then the data
  payload, unchanged. No chunk before the groups is a data chunk.
\<close>

theorem EncodeAll_frame_data:
  assumes "EncodeAll png_Encode sched w a = (w', None)"
    and "valid_schedule (length (Images a)) sched"
  shows "\<exists>pre groups.
           read_chunks (drop (length (wdata w) + length pngHeader) (wdata w')) =
             Some (pre @ concat groups @ [(tag ''IEND'', [])]) \<and>
           (\<forall>c \<in> set pre. fst c \<noteq> tag ''IDAT'' \<and> fst c \<noteq> tag ''fdAT'') \<and>
           length groups = length (Images a) \<and>
           (\<forall>i < length (Images a). \<exists>im buf fc.
              Images a ! i = Some im \<and> png_Encode im = Inr buf \<and> fst fc = tag ''fcTL'' \<and>
              groups ! i =
                fc # (if i = 0 then map (Pair (tag ''IDAT'')) (stream_idats buf)
                      else map (\<lambda>(k, d). (tag ''fdAT'', writeUint32 (seq_no fc + 1 + of_nat k) @ d))
                             (enumerate 0 (stream_idats buf))) \<and>
              (if i = 0 then map snd (tl (groups ! i)) = stream_idats buf
               else map (\<lambda>c. drop 4 (snd c)) (tl (groups ! i)) = stream_idats buf \<and>
                    map seq_no (tl (groups ! i)) =
                      map (\<lambda>k. seq_no fc + 1 + of_nat k) [0..<length (stream_idats buf)]))"
proof -
  let ?N = "length (Images a)"
  let ?ds = "frame_idats png_Encode a"
  let ?pre = "(tag ''IHDR'', frame_ihdr png_Encode a 0) # global_palette png_Encode a @
              [buildAnimationControl (of_nat ?N) (LoopCount a)]"
  let ?groups = "map (frame_group a ?ds) [0..<?N]"
  have rd: "read_chunks (drop (length (wdata w) + length pngHeader) (wdata w')) =
      Some (?pre @ concat ?groups @ [(tag ''IEND'', [])])"
    using EncodeAll_by_frame [OF assms] by simp
  have pre: "\<forall>c \<in> set ?pre. fst c \<noteq> tag ''IDAT'' \<and> fst c \<noteq> tag ''fdAT''"
    using global_palette_forms [of png_Encode a]
    by (auto simp: buildAnimationControl_def tag_def)
  have grp: "\<exists>im buf fc.
      Images a ! i = Some im \<and> png_Encode im = Inr buf \<and> fst fc = tag ''fcTL'' \<and>
      ?groups ! i =
        fc # (if i = 0 then map (Pair (tag ''IDAT'')) (stream_idats buf)
              else map (\<lambda>(k, d). (tag ''fdAT'', writeUint32 (seq_no fc + 1 + of_nat k) @ d))
                     (enumerate 0 (stream_idats buf))) \<and>
      (if i = 0 then map snd (tl (?groups ! i)) = stream_idats buf
       else map (\<lambda>c. drop 4 (snd c)) (tl (?groups ! i)) = stream_idats buf \<and>
            map seq_no (tl (?groups ! i)) =
              map (\<lambda>k. seq_no fc + 1 + of_nat k) [0..<length (stream_idats buf)])"
    if i: "i < ?N" for i
  proof -
    from EncodeAll_streams [OF assms i] obtain im buf where
      im: "Images a ! i = Some im" "png_Encode im = Inr buf"
      and st: "?ds i = stream_idats buf" by blast
    let ?fc = "frame_control a i (frame_seq ?ds i)"
    let ?tl = "if i = 0 then map (Pair (tag ''IDAT'')) (stream_idats buf)
               else map (\<lambda>(k, d). (tag ''fdAT'', writeUint32 (seq_no ?fc + 1 + of_nat k) @ d))
                      (enumerate 0 (stream_idats buf))"
    have g: "?groups ! i = ?fc # ?tl"
      using i st by (auto simp: frame_group_def buildFrameData_def)
    have fc: "fst ?fc = tag ''fcTL''"
      by (simp add: frame_control_def buildFrameControl_def)
    have t: "if i = 0 then map snd ?tl = stream_idats buf
             else map (\<lambda>c. drop 4 (snd c)) ?tl = stream_idats buf \<and>
                  map seq_no ?tl =
                    map (\<lambda>k. seq_no ?fc + 1 + of_nat k) [0..<length (stream_idats buf)]"
    proof (cases "i = 0")
      case True
      then show ?thesis by (simp add: comp_def)
    next
      case False
      then show ?thesis
        by (simp only: if_False drop4_enumerate seq_no_enumerate0)
    qed
    have tlg: "tl (?groups ! i) = ?tl" by (simp only: g list.sel)
    show ?thesis
      using im fc g t unfolding tlg
      by (intro exI [of _ im] exI [of _ buf] exI [of _ ?fc] conjI)
  qed
  from rd pre grp show ?thesis
    by (intro exI [of _ ?pre] exI [of _ ?groups]) simp
qed

theorem EncodeAll_frame_data_witness:
  "EncodeAll demo_Encode [1, 0] demo_writer demo_apng =
     (fst (EncodeAll demo_Encode [1, 0] demo_writer demo_apng), None) \<and>
   valid_schedule (length (Images demo_apng)) [1, 0] \<and>
   (\<exists>pre groups.
      read_chunks (drop (length (wdata demo_writer) + length pngHeader)
        (wdata (fst (EncodeAll demo_Encode [1, 0] demo_writer demo_apng)))) =
        Some (pre @ concat groups @ [(tag ''IEND'', [])]) \<and>
      (\<forall>c \<in> set pre. fst c \<noteq> tag ''IDAT'' \<and> fst c \<noteq> tag ''fdAT'') \<and>
      length groups = length (Images demo_apng) \<and>
      (\<forall>i < length (Images demo_apng). \<exists>im buf fc.
         Images demo_apng ! i = Some im \<and> demo_Encode im = Inr buf \<and> fst fc = tag ''fcTL'' \<and>
         groups ! i =
           fc # (if i = 0 then map (Pair (tag ''IDAT'')) (stream_idats buf)
                 else map (\<lambda>(k, d). (tag ''fdAT'', writeUint32 (seq_no fc + 1 + of_nat k) @ d))
                        (enumerate 0 (stream_idats buf))) \<and>
         (if i = 0 then map snd (tl (groups ! i)) = stream_idats buf
          else map (\<lambda>c. drop 4 (snd c)) (tl (groups ! i)) = stream_idats buf \<and>
               map seq_no (tl (groups ! i)) =
                 map (\<lambda>k. seq_no fc + 1 + of_nat k) [0..<length (stream_idats buf)])))"
proof -
  have h1: "EncodeAll demo_Encode [1, 0] demo_writer demo_apng =
     (fst (EncodeAll demo_Encode [1, 0] demo_writer demo_apng), None)"
    using demo_apng_run by (rule run_pair)
  have h2: "valid_schedule (length (Images demo_apng)) [1, 0]"
    using demo_schedules by (simp add: demo_apng_def numeral_2_eq_2)
  from EncodeAll_frame_data [OF h1 h2] h1 h2 show ?thesis by blast
qed

section \<open>The frame-control chunk\<close>

lemma BigEndian_writeUint16: "BigEndian_Uint16 (writeUint16 u) = u"
proof (rule bit_word_eqI)
  fix n assume "n < LENGTH(16)"
  then consider "n < 8" | "8 \<le> n" "n < 16"
    by fastforce
  then show "bit (BigEndian_Uint16 (writeUint16 u)) n = bit u n"
    by cases (auto simp: BigEndian_Uint16_def writeUint16_def bit_simps)
qed

lemma buildFrameControl_layout:
  "frame_control_layout (snd (buildFrameControl frame delay disposeOp s)) s frame delay disposeOp"
proof -
  let ?p = "snd (buildFrameControl frame delay disposeOp s)"
  have t: "take 4 (writeUint32 u @ r) = writeUint32 u" for u r by simp
  have t2: "take 2 (writeUint16 u @ r) = writeUint16 u" for u r by simp
  have d4: "drop 4 (writeUint32 u @ r) = r" for u r by simp
  have d8: "drop 8 (writeUint32 u @ writeUint32 v @ r) = r" for u v r by simp
  have d12: "drop 12 (writeUint32 u @ writeUint32 v @ writeUint32 x @ r) = r" for u v x r by simp
  have d16: "drop 16 (writeUint32 u @ writeUint32 v @ writeUint32 x @ writeUint32 y @ r) = r"
    for u v x y r by simp
  have d20: "drop 20 (writeUint32 u @ writeUint32 v @ writeUint32 x @ writeUint32 y @
               writeUint32 z @ r) = r"
    for u v x y z r by simp
  have d22: "drop 22 (writeUint32 u @ writeUint32 v @ writeUint32 x @ writeUint32 y @
               writeUint32 z @ writeUint16 k @ r) = r"
    for u v x y z k r by simp
  have n24: "(writeUint32 u @ writeUint32 v @ writeUint32 x @ writeUint32 y @
               writeUint32 z @ writeUint16 k @ writeUint16 l @ r) ! 24 = r ! 0"
    for u v x y z k l r by (simp add: nth_append)
  have n25: "(writeUint32 u @ writeUint32 v @ writeUint32 x @ writeUint32 y @
               writeUint32 z @ writeUint16 k @ writeUint16 l @ r) ! 25 = r ! 1"
    for u v x y z k l r by (simp add: nth_append)
  have "length ?p = 26" by (simp add: buildFrameControl_def)
  moreover have "u32_at ?p 0 = uint s"
    by (simp only: u32_at_def buildFrameControl_def snd_conv drop_0 t BigEndian_writeUint32)
  moreover have "u32_at ?p 4 = (X (Max_r (Bounds frame)) - X (Min_r (Bounds frame))) mod 2 ^ 32"
    by (simp only: u32_at_def buildFrameControl_def snd_conv d4 t
        BigEndian_writeUint32 uint_word_of_int) simp
  moreover have "u32_at ?p 8 = (Y (Max_r (Bounds frame)) - Y (Min_r (Bounds frame))) mod 2 ^ 32"
    by (simp only: u32_at_def buildFrameControl_def snd_conv d8 t
        BigEndian_writeUint32 uint_word_of_int) simp
  moreover have "u32_at ?p 12 = X (Min_r (Bounds frame)) mod 2 ^ 32"
    by (simp only: u32_at_def buildFrameControl_def snd_conv d12 t
        BigEndian_writeUint32 uint_word_of_int) simp
  moreover have "u32_at ?p 16 = Y (Min_r (Bounds frame)) mod 2 ^ 32"
    by (simp only: u32_at_def buildFrameControl_def snd_conv d16 t
        BigEndian_writeUint32 uint_word_of_int) simp
  moreover have "u16_at ?p 20 = uint delay"
    by (simp only: u16_at_def buildFrameControl_def snd_conv d20 t2 BigEndian_writeUint16)
  moreover have "u16_at ?p 22 = 100"
    by (simp only: u16_at_def buildFrameControl_def snd_conv d22 t2 BigEndian_writeUint16) simp
  moreover have "?p ! 24 = disposeOp"
    by (simp only: buildFrameControl_def snd_conv n24) simp
  moreover have "?p ! 25 = 0"
    by (simp only: buildFrameControl_def snd_conv n25) simp
  ultimately show ?thesis
    by (simp only: frame_control_layout_def simp_thms)
qed

lemma writefcTL_chunk:
  assumes ok: "err (writefcTL e i) = None"
  shows "\<exists>img. i < length (Images (aPNG e)) \<and> Images (aPNG e) ! i = Some img \<and>
           wdata (writer (writefcTL e i)) =
             wdata (writer e) @
             chunk_bytes (buildFrameControl img (Delays (aPNG e) ! i)
               (case Disposals (aPNG e) of None \<Rightarrow> 0 | Some d \<Rightarrow> d ! i) (seqNum e))"
proof -
  from writefcTL_ok [OF ok]
  have w: "wrote e (writefcTL e i) [frame_control (aPNG e) i (seqNum e)]"
    and i: "i < length (Images (aPNG e))" and n: "Images (aPNG e) ! i \<noteq> None"
    by simp_all
  from n obtain img where img: "Images (aPNG e) ! i = Some img" by auto
  from w img i show ?thesis
    by (simp add: wrote_def frame_control_def)
qed

lemma writefcTL_rev1_chunk:
  assumes ok: "err (writefcTL_rev1 e i) = None"
  shows "\<exists>img. i < length (Images (aPNG e)) \<and> Images (aPNG e) ! i = Some img \<and>
           wdata (writer (writefcTL_rev1 e i)) =
             wdata (writer e) @
             chunk_bytes (buildFrameControl img (Delays (aPNG e) ! i) 0 (seqNum e))"
proof -
  let ?a = "aPNG e"
  from ok have i: "i < length (Images ?a)"
    by (auto simp: writefcTL_rev1_def Let_def split: if_splits)
  from ok i obtain img where img: "Images ?a ! i = Some img"
    by (cases "Images ?a ! i") (auto simp: writefcTL_rev1_def Let_def)
  from ok i img have d: "i < length (Delays ?a)"
    by (auto simp: writefcTL_rev1_def Let_def split: if_splits)
  define p where "p = snd (buildFrameControl img (Delays ?a ! i) 0 (seqNum e))"
  have unf: "writefcTL_rev1 e i =
      (writeChunk e p ''fcTL'')\<lparr>seqNum := seqNum (writeChunk e p ''fcTL'') + 1\<rparr>"
    using i img d
    by (simp add: writefcTL_rev1_def Let_def p_def buildFrameControl_def)
  from ok unf have ok': "err (writeChunk e p ''fcTL'') = None" by simp
  have fc: "buildFrameControl img (Delays ?a ! i) 0 (seqNum e) = (tag ''fcTL'', p)"
    by (simp add: p_def buildFrameControl_def)
  from writeChunk_ok [OF ok']
  have "wdata (writer (writeChunk e p ''fcTL'')) = wdata (writer e) @ chunk_bytes (tag ''fcTL'', p)"
    by simp
  with i img show ?thesis by (simp add: unf fc)
qed

lemma frame_control_snd:
  "buildFrameControl img d x s = (tag ''fcTL'', snd (buildFrameControl img d x s))"
  by (simp add: buildFrameControl_def)

text \<open>
  C8, amended. A frame-control chunk that \<^verbatim>\<open>writefcTL\<close> gets out for frame \<open>i\<close> has the
  tag \<^verbatim>\<open>fcTL\<close> and a payload of exactly 26 bytes: the sequence number (\<open>u32\<close>), the width
  \<open>Max.X - Min.X\<close> and the height \<open>Max.Y - Min.Y\<close> of the bounds of the frame, its offsets
  \<open>Min.X\<close> and \<open>Min.Y\<close> (each converted to \<open>u32\<close>), the delay numerator \<open>Delays[i]\<close> and
  the denominator 100 (\<open>u16\<close>), the dispose operator and the blend operator 0. With the
  \<^verbatim>\<open>writefcTL\<close> of lines 496-513 the dispose operator is \<open>Disposals[i]\<close> if there are
  disposals and 0 otherwise; with the \<^verbatim>\<open>writefcTL\<close> of lines 114-128, which does not read
  \<open>Disposals\<close>, it is always 0. In the output of a successful run of \<^verbatim>\<open>EncodeAll\<close> (lines
  743-900) there is one such chunk per frame, in frame order, that of frame \<open>i\<close> with the
  fields of frame \<open>i\<close>.
\<close>

theorem writefcTL_layout:
  "(err (writefcTL e i) = None \<longrightarrow>
      (\<exists>img p. i < length (Images (aPNG e)) \<and> Images (aPNG e) ! i = Some img \<and>
         wdata (writer (writefcTL e i)) = wdata (writer e) @ chunk_bytes (tag ''fcTL'', p) \<and>
         frame_control_layout p (seqNum e) img (Delays (aPNG e) ! i)
           (case Disposals (aPNG e) of None \<Rightarrow> 0 | Some d \<Rightarrow> d ! i))) \<and>
   (err (writefcTL_rev1 e i) = None \<longrightarrow>
      (\<exists>img p. i < length (Images (aPNG e)) \<and> Images (aPNG e) ! i = Some img \<and>
         wdata (writer (writefcTL_rev1 e i)) = wdata (writer e) @ chunk_bytes (tag ''fcTL'', p) \<and>
         frame_control_layout p (seqNum e) img (Delays (aPNG e) ! i) 0)) \<and>
   (EncodeAll png_Encode sched w a = (w', None) \<and> valid_schedule (length (Images a)) sched \<longrightarrow>
      (\<exists>cs. read_chunks (drop (length (wdata w) + length pngHeader) (wdata w')) = Some cs \<and>
         length (frame_controls cs) = length (Images a) \<and>
         (\<forall>i < length (Images a). \<exists>img.
            Images a ! i = Some img \<and>
            frame_control_layout (snd (frame_controls cs ! i))
              (frame_seq (frame_idats png_Encode a) i) img (Delays a ! i)
              (case Disposals a of None \<Rightarrow> 0 | Some d \<Rightarrow> d ! i))))"
proof (intro conjI impI)
  assume ok: "err (writefcTL e i) = None"
  from writefcTL_chunk [OF ok] obtain img where
    i: "i < length (Images (aPNG e))" and img: "Images (aPNG e) ! i = Some img"
    and wd: "wdata (writer (writefcTL e i)) =
             wdata (writer e) @
             chunk_bytes (buildFrameControl img (Delays (aPNG e) ! i)
               (case Disposals (aPNG e) of None \<Rightarrow> 0 | Some d \<Rightarrow> d ! i) (seqNum e))"
    by blast
  let ?fc = "buildFrameControl img (Delays (aPNG e) ! i)
               (case Disposals (aPNG e) of None \<Rightarrow> 0 | Some d \<Rightarrow> d ! i) (seqNum e)"
  from wd have "wdata (writer (writefcTL e i)) = wdata (writer e) @ chunk_bytes (tag ''fcTL'', snd ?fc)"
    by (subst (asm) frame_control_snd)
  with i img buildFrameControl_layout [of img "Delays (aPNG e) ! i" _ "seqNum e"]
  show "\<exists>img p. i < length (Images (aPNG e)) \<and> Images (aPNG e) ! i = Some img \<and>
         wdata (writer (writefcTL e i)) = wdata (writer e) @ chunk_bytes (tag ''fcTL'', p) \<and>
         frame_control_layout p (seqNum e) img (Delays (aPNG e) ! i)
           (case Disposals (aPNG e) of None \<Rightarrow> 0 | Some d \<Rightarrow> d ! i)"
    by blast
next
  assume ok: "err (writefcTL_rev1 e i) = None"
  from writefcTL_rev1_chunk [OF ok] obtain img where
    i: "i < length (Images (aPNG e))" and img: "Images (aPNG e) ! i = Some img"
    and wd: "wdata (writer (writefcTL_rev1 e i)) =
             wdata (writer e) @
             chunk_bytes (buildFrameControl img (Delays (aPNG e) ! i) 0 (seqNum e))"
    by blast
  let ?fc = "buildFrameControl img (Delays (aPNG e) ! i) 0 (seqNum e)"
  from wd have "wdata (writer (writefcTL_rev1 e i)) =
      wdata (writer e) @ chunk_bytes (tag ''fcTL'', snd ?fc)"
    by (subst (asm) frame_control_snd)
  with i img buildFrameControl_layout [of img "Delays (aPNG e) ! i" 0 "seqNum e"]
  show "\<exists>img p. i < length (Images (aPNG e)) \<and> Images (aPNG e) ! i = Some img \<and>
         wdata (writer (writefcTL_rev1 e i)) = wdata (writer e) @ chunk_bytes (tag ''fcTL'', p) \<and>
         frame_control_layout p (seqNum e) img (Delays (aPNG e) ! i) 0"
    by blast
next
  assume "EncodeAll png_Encode sched w a = (w', None) \<and> valid_schedule (length (Images a)) sched"
  then have ok: "EncodeAll png_Encode sched w a = (w', None)"
    and vs: "valid_schedule (length (Images a)) sched" by simp_all
  let ?N = "length (Images a)"
  let ?ds = "frame_idats png_Encode a"
  let ?cs = "(tag ''IHDR'', frame_ihdr png_Encode a 0) # global_palette png_Encode a @
             buildAnimationControl (of_nat ?N) (LoopCount a) #
             concat (map (frame_group a ?ds) [0..<?N]) @ [(tag ''IEND'', [])]"
  have rd: "read_chunks (drop (length (wdata w) + length pngHeader) (wdata w')) = Some ?cs"
    using ok vs by (rule EncodeAll_by_frame)
  have fl: "frame_controls ?cs = map (\<lambda>i. frame_control a i (frame_seq ?ds i)) [0..<?N]"
    unfolding frame_controls_def by (rule filter_fcTL_by_frame)
  from EncodeAll_ok [OF ok vs] have "fullfillFrameRegionConstraints (Images a)" by simp
  then have nn: "None \<notin> set (Images a)" by (rule region_nonnil)
  have len: "length (frame_controls ?cs) = ?N"
    by (simp only: fl) simp
  have ith: "frame_controls ?cs ! i = frame_control a i (frame_seq ?ds i)" if "i < ?N" for i
    using that by (simp only: fl) simp
  have fr: "\<exists>img. Images a ! i = Some img \<and>
      frame_control_layout (snd (frame_controls ?cs ! i)) (frame_seq ?ds i) img (Delays a ! i)
        (case Disposals a of None \<Rightarrow> 0 | Some d \<Rightarrow> d ! i)"
    if i: "i < ?N" for i
  proof -
    from nn i obtain img where img: "Images a ! i = Some img"
      by (metis nth_mem option.exhaust)
    have "frame_control_layout (snd (frame_control a i (frame_seq ?ds i))) (frame_seq ?ds i) img
        (Delays a ! i) (case Disposals a of None \<Rightarrow> 0 | Some d \<Rightarrow> d ! i)"
      unfolding frame_control_def img option.sel by (rule buildFrameControl_layout)
    with img show ?thesis by (simp only: ith [OF i]) blast
  qed
  from rd len fr
  show "\<exists>cs. read_chunks (drop (length (wdata w) + length pngHeader) (wdata w')) = Some cs \<and>
         length (frame_controls cs) = length (Images a) \<and>
         (\<forall>i < length (Images a). \<exists>img.
            Images a ! i = Some img \<and>
            frame_control_layout (snd (frame_controls cs ! i))
              (frame_seq (frame_idats png_Encode a) i) img (Delays a ! i)
              (case Disposals a of None \<Rightarrow> 0 | Some d \<Rightarrow> d ! i))"
    by (intro exI [of _ ?cs] conjI allI impI)
qed

lemma chunk_bytes_nth:
  assumes "length (fst c) = 4" and "k < length (snd c)"
  shows "chunk_bytes c ! (8 + k) = snd c ! k"
  using assms by (simp add: chunk_bytes_def nth_append)

lemma writefcTL_rev1_steady:
  assumes st: "steady e" and i: "i < length (Images (aPNG e))"
    and img: "Images (aPNG e) ! i \<noteq> None"
    and d: "i < length (Delays (aPNG e))"
  shows "steady (writefcTL_rev1 e i)"
proof -
  from img obtain im where im: "Images (aPNG e) ! i = Some im" by auto
  define p where "p = snd (buildFrameControl im (Delays (aPNG e) ! i) 0 (seqNum e))"
  have unf: "writefcTL_rev1 e i =
      (writeChunk e p ''fcTL'')\<lparr>seqNum := seqNum (writeChunk e p ''fcTL'') + 1\<rparr>"
    using i im d
    by (simp add: writefcTL_rev1_def Let_def p_def buildFrameControl_def)
  have "length p = 26"
    by (simp add: p_def buildFrameControl_def)
  then have "steady (writeChunk e p ''fcTL'')"
    using st by (intro writeChunk_steady) simp_all
  then show ?thesis by (simp add: unf steady_def)
qed

lemma paletted_encoder_steady: "steady paletted_encoder"
  by (simp add: steady_def paletted_encoder_def demo_encoder_def demo_writer_def)

lemma paletted_encoder_runs:
  "err (writefcTL paletted_encoder 0) = None"
  "err (writefcTL paletted_encoder 1) = None"
  "err (writefcTL_rev1 paletted_encoder 0) = None"
  "err (writefcTL_rev1 paletted_encoder 1) = None"
proof -
  have a: "aPNG paletted_encoder = demo_paletted"
    by (simp add: paletted_encoder_def)
  have "steady (writefcTL paletted_encoder i)" "steady (writefcTL_rev1 paletted_encoder i)"
    if "i < 2" for i
    using that
    by (auto intro!: writefcTL_steady writefcTL_rev1_steady paletted_encoder_steady
        simp: a demo_paletted_def less_Suc_eq numeral_2_eq_2)
  then show "err (writefcTL paletted_encoder 0) = None"
    "err (writefcTL paletted_encoder 1) = None"
    "err (writefcTL_rev1 paletted_encoder 0) = None"
    "err (writefcTL_rev1 paletted_encoder 1) = None"
    by (simp_all add: steady_def)
qed

theorem writefcTL_layout_witness:
  "err (writefcTL paletted_encoder 1) = None \<and>
   err (writefcTL_rev1 paletted_encoder 1) = None \<and>
   EncodeAll demo_Encode [0, 1] demo_writer demo_paletted =
     (fst (EncodeAll demo_Encode [0, 1] demo_writer demo_paletted), None) \<and>
   valid_schedule (length (Images demo_paletted)) [0, 1] \<and>
   (\<exists>img p. 1 < length (Images (aPNG paletted_encoder)) \<and>
      Images (aPNG paletted_encoder) ! 1 = Some img \<and>
      wdata (writer (writefcTL paletted_encoder 1)) =
        wdata (writer paletted_encoder) @ chunk_bytes (tag ''fcTL'', p) \<and>
      frame_control_layout p (seqNum paletted_encoder) img (Delays (aPNG paletted_encoder) ! 1) 2) \<and>
   (\<exists>img p. 1 < length (Images (aPNG paletted_encoder)) \<and>
      Images (aPNG paletted_encoder) ! 1 = Some img \<and>
      wdata (writer (writefcTL_rev1 paletted_encoder 1)) =
        wdata (writer paletted_encoder) @ chunk_bytes (tag ''fcTL'', p) \<and>
      frame_control_layout p (seqNum paletted_encoder) img (Delays (aPNG paletted_encoder) ! 1) 0) \<and>
   (\<exists>cs. read_chunks (drop (length (wdata demo_writer) + length pngHeader)
            (wdata (fst (EncodeAll demo_Encode [0, 1] demo_writer demo_paletted)))) = Some cs \<and>
      length (frame_controls cs) = length (Images demo_paletted) \<and>
      (\<forall>i < length (Images demo_paletted). \<exists>img.
         Images demo_paletted ! i = Some img \<and>
         frame_control_layout (snd (frame_controls cs ! i))
           (frame_seq (frame_idats demo_Encode demo_paletted) i) img (Delays demo_paletted ! i)
           (case Disposals demo_paletted of None \<Rightarrow> 0 | Some d \<Rightarrow> d ! i)))"
proof -
  have h1: "EncodeAll demo_Encode [0, 1] demo_writer demo_paletted =
     (fst (EncodeAll demo_Encode [0, 1] demo_writer demo_paletted), None)"
    using demo_paletted_run by (rule run_pair)
  have h2: "valid_schedule (length (Images demo_paletted)) [0, 1]"
    using demo_schedules by (simp add: demo_paletted_def numeral_2_eq_2)
  have d: "(case Disposals (aPNG paletted_encoder) of None \<Rightarrow> 0 | Some d \<Rightarrow> d ! 1) = 2"
    by (simp add: paletted_encoder_def demo_paletted_def)
  from writefcTL_layout [of paletted_encoder 1 demo_Encode "[0, 1]" demo_writer demo_paletted
      "fst (EncodeAll demo_Encode [0, 1] demo_writer demo_paletted)"]
    paletted_encoder_runs(2,4) h1 h2
  show ?thesis unfolding d by blast
qed

text \<open>
  C8, as the specification states it, fails for the \<^verbatim>\<open>writefcTL\<close> of lines 114-128: with
  disposals \<open>[1, 2]\<close> given, the chunk it writes for frame 0 (after 8 bytes of length and
  tag) has 0 at payload offset 24, not \<open>Disposals[0] = 1\<close>.
\<close>

theorem writefcTL_rev1_dispose_counterexample:
  "Disposals (aPNG paletted_encoder) = Some [1, 2] \<and>
   wdata (writer paletted_encoder) = [] \<and>
   err (writefcTL_rev1 paletted_encoder 0) = None \<and>
   take 4 (drop 4 (wdata (writer (writefcTL_rev1 paletted_encoder 0)))) = tag ''fcTL'' \<and>
   wdata (writer (writefcTL_rev1 paletted_encoder 0)) ! (8 + 24) = 0"
proof -
  have a: "Disposals (aPNG paletted_encoder) = Some [1, 2]"
    "wdata (writer paletted_encoder) = []"
    by (simp_all add: paletted_encoder_def demo_paletted_def demo_encoder_def demo_writer_def)
  from writefcTL_rev1_chunk [OF paletted_encoder_runs(3)] a(2) obtain img where
    wd: "wdata (writer (writefcTL_rev1 paletted_encoder 0)) =
           chunk_bytes (buildFrameControl img (Delays (aPNG paletted_encoder) ! 0) 0
             (seqNum paletted_encoder))"
    by auto
  let ?fc = "buildFrameControl img (Delays (aPNG paletted_encoder) ! 0) 0 (seqNum paletted_encoder)"
  from buildFrameControl_layout [of img "Delays (aPNG paletted_encoder) ! 0" 0 "seqNum paletted_encoder"]
  have l: "length (snd ?fc) = 26" "snd ?fc ! 24 = 0"
    by (simp_all add: frame_control_layout_def)
  have f: "fst ?fc = tag ''fcTL''" by (simp add: buildFrameControl_def)
  have "chunk_bytes ?fc ! (8 + 24) = snd ?fc ! 24"
    by (rule chunk_bytes_nth) (simp_all add: f l)
  moreover have "take 4 (drop 4 (chunk_bytes ?fc)) = tag ''fcTL''"
    by (simp add: chunk_bytes_def f)
  ultimately show ?thesis
    using a paletted_encoder_runs(3) l by (simp only: wd)
qed

section \<open>The error returned\<close>

text \<open>
  When the input passes validation and the palette of the first frame cannot be had,
  \<^verbatim>\<open>EncodeAll\<close> (lines 743-900) returns the error of that step, whatever the write of the
  signature has answered.
\<close>

lemma EncodeAll_palette_error:
  assumes "Images a \<noteq> []" and "length (Images a) = length (Delays a)"
    and "\<forall>d. Disposals a = Some d \<longrightarrow> length (Images a) = length d"
    and "fullfillFrameRegionConstraints (Images a)"
    and "first_palette enc (Images a ! 0) = Inl y"
  shows "EncodeAll enc sched w a = (fst (Write w pngHeader), Some y)"
proof -
  have "\<not> (case Disposals a of None \<Rightarrow> False | Some ds \<Rightarrow> length (Images a) \<noteq> length ds)"
    using assms(3) by (auto split: option.splits)
  moreover from assms(1,2) have "Delays a \<noteq> []" by auto
  ultimately show ?thesis
    using assms(1,2,4,5) by (cases "Write w pngHeader") (simp add: EncodeAll_def)
qed

text \<open>
  C7. First error wins, the specification says: the error of a failed write is the one
  the caller gets. \<^verbatim>\<open>EncodeAll\<close> (lines 743-900) stores the error of writing the signature
  (line 762) and then, for a paletted first frame, returns the error of the PNG encoder
  from lines 775-777 without looking at the stored one. Here the writer fails on its
  first call and the encoder refuses the (paletted, empty) frame: the caller gets the
  encoding error, not the write error. The earlier \<^verbatim>\<open>EncodeAll\<close> (lines 264-381), on the
  same input, returns the write error.
\<close>

theorem EncodeAll_first_error_replaced:
  "Write closed_writer pngHeader = (\<lparr>wdata = [], wscript = []\<rparr>, Some (IOError 3)) \<and>
   isPaletted (the (Images demo_blank ! 0)) \<and>
   EncodeAll refusing_Encode [0] closed_writer demo_blank =
     (\<lparr>wdata = [], wscript = []\<rparr>, Some (ErrPngEncoding ''invalid image size'')) \<and>
   EncodeAll_rev1 refusing_Encode [0] closed_writer demo_blank =
     (\<lparr>wdata = [], wscript = []\<rparr>, Some (IOError 3))"
proof -
  have w: "Write closed_writer pngHeader = (\<lparr>wdata = [], wscript = []\<rparr>, Some (IOError 3))"
    by (simp add: Write_def closed_writer_def)
  have r: "fullfillFrameRegionConstraints (Images demo_blank)"
    by (simp add: demo_blank_def fullfillFrameRegionConstraints_def demo_image_def)
  have p: "first_palette refusing_Encode (Images demo_blank ! 0) =
      Inl (ErrPngEncoding ''invalid image size'')"
    by (simp add: first_palette_def demo_blank_def refusing_Encode_def)
  have c: "isSameColorModel (Images demo_blank) = Inr True"
    by (simp add: isSameColorModel_def demo_blank_def)
  have k: "frame_worker_rev1 refusing_Encode 0 (Images demo_blank ! 0) =
      Inl (ErrPngEncoding ''invalid image size'')"
    by (simp add: demo_blank_def frame_worker_rev1_def refusing_Encode_def)
  have n: "length (Images demo_blank) = 1" "length (Delays demo_blank) = 1"
    "Disposals demo_blank = None"
    by (simp_all add: demo_blank_def)
  have v2: "EncodeAll refusing_Encode [0] closed_writer demo_blank =
     (\<lparr>wdata = [], wscript = []\<rparr>, Some (ErrPngEncoding ''invalid image size''))"
    by (simp add: EncodeAll_def n r w p)
  have v1: "EncodeAll_rev1 refusing_Encode [0] closed_writer demo_blank =
     (\<lparr>wdata = [], wscript = []\<rparr>, Some (IOError 3))"
    by (simp add: EncodeAll_rev1_def n r w c k Let_def)
  from w v2 v1 show ?thesis by (simp add: demo_blank_def)
qed

end
